theory Spec2Isabelle
  imports Complex_Main
begin

section \<open>Tensor entries\<close>

text \<open>
  An entry of a torch tensor is a real number or one of the IEEE special values \<open>+inf\<close>,
  \<open>-inf\<close>, \<open>nan\<close>. \<open>fadd\<close>, \<open>fmul\<close>, \<open>fdiv\<close>, \<open>fexp\<close> and \<open>flog\<close> give the exact result of
  an operation, with the rules of IEEE 754 for the special values. Zero carries no sign: a
  division of a non-zero finite value by zero gives the infinity of the sign of the
  numerator. The operations of the program, \<open>fl_add\<close> to \<open>fl_log\<close> below, bring the exact
  result into the range of the precision they are run at.
\<close>

datatype fl = Fin real | PInf | NInf | NaN

datatype error = IndexError | RuntimeError | ZeroDivisionError

text \<open>
  A 1-D tensor is the list of its entries and a 2-D tensor the list of its rows, all of one
  length. An operation on two tensors pairs their entries by position; the tensors of a
  training step come from the encoder with the shapes the step expects, so the shape
  errors of torch are modelled only where a claim depends on them (the slices and the
  assignments of the queue, the products of the loss, \<open>torch.max\<close> of an empty tensor,
  indexing).
\<close>

type_synonym vec = "fl list"
type_synonym mat = "fl list list"

fun isinf :: "fl \<Rightarrow> bool" where
  "isinf PInf = True"
| "isinf NInf = True"
| "isinf _ = False"

fun isfinite :: "fl \<Rightarrow> bool" where
  "isfinite (Fin _) = True"
| "isfinite _ = False"

fun fneg :: "fl \<Rightarrow> fl" where
  "fneg (Fin a) = Fin (- a)"
| "fneg PInf = NInf"
| "fneg NInf = PInf"
| "fneg NaN = NaN"

fun fadd :: "fl \<Rightarrow> fl \<Rightarrow> fl" where
  "fadd NaN _ = NaN"
| "fadd _ NaN = NaN"
| "fadd PInf NInf = NaN"
| "fadd NInf PInf = NaN"
| "fadd PInf _ = PInf"
| "fadd _ PInf = PInf"
| "fadd NInf _ = NInf"
| "fadd _ NInf = NInf"
| "fadd (Fin a) (Fin b) = Fin (a + b)"

definition fsub :: "fl \<Rightarrow> fl \<Rightarrow> fl" where
  "fsub a b = fadd a (fneg b)"

fun fmul :: "fl \<Rightarrow> fl \<Rightarrow> fl" where
  "fmul NaN _ = NaN"
| "fmul _ NaN = NaN"
| "fmul PInf PInf = PInf"
| "fmul PInf NInf = NInf"
| "fmul NInf PInf = NInf"
| "fmul NInf NInf = PInf"
| "fmul PInf (Fin b) = (if 0 < b then PInf else if b < 0 then NInf else NaN)"
| "fmul NInf (Fin b) = (if 0 < b then NInf else if b < 0 then PInf else NaN)"
| "fmul (Fin a) PInf = (if 0 < a then PInf else if a < 0 then NInf else NaN)"
| "fmul (Fin a) NInf = (if 0 < a then NInf else if a < 0 then PInf else NaN)"
| "fmul (Fin a) (Fin b) = Fin (a * b)"

fun fdiv :: "fl \<Rightarrow> fl \<Rightarrow> fl" where
  "fdiv NaN _ = NaN"
| "fdiv _ NaN = NaN"
| "fdiv PInf PInf = NaN"
| "fdiv PInf NInf = NaN"
| "fdiv NInf PInf = NaN"
| "fdiv NInf NInf = NaN"
| "fdiv PInf (Fin b) = (if b < 0 then NInf else PInf)"
| "fdiv NInf (Fin b) = (if b < 0 then PInf else NInf)"
| "fdiv (Fin a) PInf = Fin 0"
| "fdiv (Fin a) NInf = Fin 0"
| "fdiv (Fin a) (Fin b) =
     (if b \<noteq> 0 then Fin (a / b)
      else if 0 < a then PInf else if a < 0 then NInf else NaN)"

fun fexp :: "fl \<Rightarrow> fl" where
  "fexp (Fin a) = Fin (exp a)"
| "fexp PInf = PInf"
| "fexp NInf = Fin 0"
| "fexp NaN = NaN"

fun flog :: "fl \<Rightarrow> fl" where
  "flog (Fin a) = (if 0 < a then Fin (ln a) else if a = 0 then NInf else NaN)"
| "flog PInf = PInf"
| "flog NInf = NaN"
| "flog NaN = NaN"

text \<open>
  The range of the tensors. \<open>Float32\<close> is the arithmetic of the float32 tensors of the
  program: a finite result of magnitude at least \<open>(2 - 2^-24) * 2^127\<close> becomes the infinity of its sign (overflow)
  and one of magnitude at most \<open>2^-150\<close> becomes 0 (underflow). \<open>Exact\<close> has no such limits
  and is the arithmetic of a statement made "in exact arithmetic". Rounding inside the
  range is not modelled at either precision.
\<close>

datatype precision = Exact | Float32

definition overflows :: "precision \<Rightarrow> real \<Rightarrow> bool" where
  "overflows prec a = (prec = Float32 \<and> (2 - 1 / 2 ^ 24) * 2 ^ 127 \<le> \<bar>a\<bar>)"

definition underflows :: "precision \<Rightarrow> real \<Rightarrow> bool" where
  "underflows prec a = (prec = Float32 \<and> \<bar>a\<bar> \<le> 1 / 2 ^ 150)"

fun to_range :: "precision \<Rightarrow> fl \<Rightarrow> fl" where
  "to_range prec (Fin a) =
     (if overflows prec a then (if 0 < a then PInf else NInf)
      else if underflows prec a then Fin 0
      else Fin a)"
| "to_range prec PInf = PInf"
| "to_range prec NInf = NInf"
| "to_range prec NaN = NaN"

definition fl_add :: "precision \<Rightarrow> fl \<Rightarrow> fl \<Rightarrow> fl" where
  "fl_add prec a b = to_range prec (fadd a b)"

definition fl_sub :: "precision \<Rightarrow> fl \<Rightarrow> fl \<Rightarrow> fl" where
  "fl_sub prec a b = to_range prec (fsub a b)"

definition fl_mul :: "precision \<Rightarrow> fl \<Rightarrow> fl \<Rightarrow> fl" where
  "fl_mul prec a b = to_range prec (fmul a b)"

definition fl_div :: "precision \<Rightarrow> fl \<Rightarrow> fl \<Rightarrow> fl" where
  "fl_div prec a b = to_range prec (fdiv a b)"

text \<open>\<open>torch.exp\<close> and \<open>torch.log\<close>.\<close>

definition fl_exp :: "precision \<Rightarrow> fl \<Rightarrow> fl" where
  "fl_exp prec a = to_range prec (fexp a)"

definition fl_log :: "precision \<Rightarrow> fl \<Rightarrow> fl" where
  "fl_log prec a = to_range prec (flog a)"

text \<open>The binary step of \<open>torch.max\<close>: a \<open>nan\<close> operand gives \<open>nan\<close>.\<close>

fun fmax :: "fl \<Rightarrow> fl \<Rightarrow> fl" where
  "fmax NaN _ = NaN"
| "fmax _ NaN = NaN"
| "fmax PInf _ = PInf"
| "fmax _ PInf = PInf"
| "fmax NInf b = b"
| "fmax a NInf = a"
| "fmax (Fin a) (Fin b) = Fin (max a b)"

text \<open>
  \<open>torch.sum\<close> of the entries of a 1-D tensor. torch does not fix the order of the
  additions; the model takes the exact sum and brings it into range.
\<close>

fun exact_sum :: "vec \<Rightarrow> fl" where
  "exact_sum [] = Fin 0"
| "exact_sum (x # xs) = fadd x (exact_sum xs)"

definition fsum :: "precision \<Rightarrow> vec \<Rightarrow> fl" where
  "fsum prec xs = to_range prec (exact_sum xs)"

text \<open>\<open>torch.max(t)\<close> of all entries of a tensor; it raises on a tensor with no entry.\<close>

fun torch_max :: "vec \<Rightarrow> error + fl" where
  "torch_max [] = Inl RuntimeError"
| "torch_max (x # xs) = Inr (foldl fmax x xs)"

text \<open>\<open>t.mean()\<close> of a 1-D tensor: the sum over the number of entries (\<open>nan\<close> when empty).\<close>

definition mean :: "precision \<Rightarrow> vec \<Rightarrow> fl" where
  "mean prec xs = fl_div prec (fsum prec xs) (Fin (real (length xs)))"

section \<open>\<open>shoot_infs\<close>\<close>

text \<open>
  \<open>shoot_infs\<close> collects the positions where \<open>torch.isinf\<close> holds. When there is none the
  tensor is returned as it is. Otherwise the entries at these positions are set to 0, the
  maximum \<open>m\<close> of the whole tensor is taken, and the same positions are set to \<open>m\<close>. An index
  of length 1 addresses a 1-D tensor, one of length 2 a 2-D tensor. The tensor has an entry
  when the maximum is taken (an infinite one was found), so the error branch of
  \<open>torch_max\<close> is never reached from here.
\<close>

definition zero_infs :: "vec \<Rightarrow> vec" where
  "zero_infs xs = map (\<lambda>x. if isinf x then Fin 0 else x) xs"

definition shoot_infs_vec :: "vec \<Rightarrow> vec" where
  "shoot_infs_vec xs =
     (if \<not> list_ex isinf xs then xs
      else (case torch_max (zero_infs xs) of
              Inl e \<Rightarrow> xs
            | Inr m \<Rightarrow> map (\<lambda>x. if isinf x then m else x) xs))"

definition shoot_infs_mat :: "mat \<Rightarrow> mat" where
  "shoot_infs_mat xss =
     (if \<not> list_ex isinf (concat xss) then xss
      else (case torch_max (concat (map zero_infs xss)) of
              Inl e \<Rightarrow> xss
            | Inr m \<Rightarrow> map (map (\<lambda>x. if isinf x then m else x)) xss))"

datatype tensor = Vec vec | Mat mat

fun shoot_infs :: "tensor \<Rightarrow> tensor" where
  "shoot_infs (Vec xs) = Vec (shoot_infs_vec xs)"
| "shoot_infs (Mat xss) = Mat (shoot_infs_mat xss)"

fun entries :: "tensor \<Rightarrow> fl list" where
  "entries (Vec xs) = xs"
| "entries (Mat xss) = concat xss"

fun map_entries :: "(fl \<Rightarrow> fl) \<Rightarrow> tensor \<Rightarrow> tensor" where
  "map_entries f (Vec xs) = Vec (map f xs)"
| "map_entries f (Mat xss) = Mat (map (map f) xss)"

section \<open>\<open>distributed_sinkhorn\<close>\<close>

text \<open>
  The workers of the process group run \<open>distributed_sinkhorn\<close> in lockstep; the model takes
  the list of their local matrices \<open>Q\<close> (one per worker, \<open>K\<close> rows of \<open>N\<close> entries each) and
  returns the list of their results. \<open>dist.all_reduce\<close> replaces each worker's value by the
  sum (or the maximum) of the values of all workers. A matrix is a list of rows; \<open>.t()\<close> and
  the sums along \<open>dim=0\<close> go through \<open>transpose\<close>.
\<close>

definition all_reduce_sum :: "precision \<Rightarrow> fl list \<Rightarrow> fl" where
  "all_reduce_sum prec xs = fsum prec xs"

definition all_reduce_max :: "fl list \<Rightarrow> fl" where
  "all_reduce_max ms = (case ms of [] \<Rightarrow> NaN | m # rest \<Rightarrow> foldl fmax m rest)"

definition all_reduce_vec :: "precision \<Rightarrow> vec list \<Rightarrow> vec" where
  "all_reduce_vec prec us =
     (case us of [] \<Rightarrow> [] | u # rest \<Rightarrow> foldl (map2 (fl_add prec)) u rest)"

definition ncols :: "mat \<Rightarrow> nat" where
  "ncols Q = (case Q of [] \<Rightarrow> 0 | row # _ \<Rightarrow> length row)"

definition r_vec :: "precision \<Rightarrow> mat \<Rightarrow> vec" where
  "r_vec prec Q = replicate (length Q) (fl_div prec (Fin 1) (Fin (real (length Q))))"

definition c_vec :: "precision \<Rightarrow> int \<Rightarrow> mat \<Rightarrow> vec" where
  "c_vec prec world_size Q =
     replicate (ncols Q)
       (fl_div prec (Fin 1) (Fin (real_of_int world_size * real (ncols Q))))"

definition row_sums :: "precision \<Rightarrow> mat \<Rightarrow> vec" where
  "row_sums prec Q = map (fsum prec) Q"

definition col_sums :: "precision \<Rightarrow> mat \<Rightarrow> vec" where
  "col_sums prec Q = map (fsum prec) (transpose Q)"

definition scale_rows :: "precision \<Rightarrow> vec \<Rightarrow> mat \<Rightarrow> mat" where
  "scale_rows prec u Q = map2 (\<lambda>a row. map (\<lambda>x. fl_mul prec x a) row) u Q"

definition scale_cols :: "precision \<Rightarrow> vec \<Rightarrow> mat \<Rightarrow> mat" where
  "scale_cols prec v Q = map (\<lambda>row. map2 (fl_mul prec) row v) Q"

definition sinkhorn_normalize :: "precision \<Rightarrow> mat list \<Rightarrow> mat list" where
  "sinkhorn_normalize prec Qs =
     (let Qs1 = map shoot_infs_mat Qs;
          sum_Q = all_reduce_sum prec (map (\<lambda>Q. fsum prec (concat Q)) Qs1)
      in map (map (map (\<lambda>x. fl_div prec x sum_Q))) Qs1)"

definition sinkhorn_iteration ::
  "precision \<Rightarrow> (vec \<times> vec) list \<Rightarrow> mat list \<Rightarrow> mat list" where
  "sinkhorn_iteration prec rcs Qs =
     (let u = all_reduce_vec prec (map (row_sums prec) Qs)
      in map2 (\<lambda>(r, c) Q.
            let Q1 = scale_rows prec (shoot_infs_vec (map2 (fl_div prec) r u)) Q
            in scale_cols prec (map2 (fl_div prec) c (col_sums prec Q1)) Q1) rcs Qs)"

primrec sinkhorn_loop ::
  "precision \<Rightarrow> nat \<Rightarrow> (vec \<times> vec) list \<Rightarrow> mat list \<Rightarrow> mat list" where
  "sinkhorn_loop prec 0 rcs Qs = Qs"
| "sinkhorn_loop prec (Suc n) rcs Qs = sinkhorn_loop prec n rcs (sinkhorn_iteration prec rcs Qs)"

text \<open>The matrices of the workers when the loop of \<open>nmb_iters\<close> rounds has ended.\<close>

definition sinkhorn_before_final :: "precision \<Rightarrow> int \<Rightarrow> mat list \<Rightarrow> nat \<Rightarrow> mat list" where
  "sinkhorn_before_final prec world_size Qs nmb_iters =
     (let Qs0 = sinkhorn_normalize prec Qs
      in sinkhorn_loop prec nmb_iters
           (map (\<lambda>Q. (r_vec prec Q, c_vec prec world_size Q)) Qs0) Qs0)"

definition sinkhorn_final :: "precision \<Rightarrow> mat \<Rightarrow> mat" where
  "sinkhorn_final prec Q =
     transpose (map (\<lambda>row. map2 (fl_div prec) row (col_sums prec Q)) Q)"

definition distributed_sinkhorn :: "precision \<Rightarrow> int \<Rightarrow> mat list \<Rightarrow> nat \<Rightarrow> mat list" where
  "distributed_sinkhorn prec world_size Qs nmb_iters =
     map (sinkhorn_final prec) (sinkhorn_before_final prec world_size Qs nmb_iters)"

section \<open>The assignments of a training step\<close>

text \<open>
  \<open>q = out / epsilon\<close>; with \<open>improve_numerical_stability\<close> the maximum of \<open>q\<close> over all
  workers is subtracted; then \<open>q = exp(q).t()\<close>. \<open>torch.max\<close> raises on a worker whose
  \<open>q\<close> has no entry.
\<close>

fun collect :: "(error + 'a) list \<Rightarrow> error + 'a list" where
  "collect [] = Inr []"
| "collect (Inl e # _) = Inl e"
| "collect (Inr x # rest) = (case collect rest of Inl e \<Rightarrow> Inl e | Inr xs \<Rightarrow> Inr (x # xs))"

definition scores_to_Q :: "precision \<Rightarrow> fl \<Rightarrow> bool \<Rightarrow> mat list \<Rightarrow> error + mat list" where
  "scores_to_Q prec epsilon improve_numerical_stability outs =
     (let qs = map (map (map (\<lambda>x. fl_div prec x epsilon))) outs
      in if improve_numerical_stability then
           (case collect (map (\<lambda>q. torch_max (concat q)) qs) of
              Inl e \<Rightarrow> Inl e
            | Inr Ms \<Rightarrow>
                let M = all_reduce_max Ms
                in Inr (map (\<lambda>q. transpose (map (map (\<lambda>x. fl_exp prec (fl_sub prec x M))) q)) qs))
         else Inr (map (\<lambda>q. transpose (map (map (fl_exp prec)) q)) qs))"

text \<open>\<open>t[-bs:]\<close>: the last \<open>bs\<close> rows (all rows when \<open>bs\<close> is 0 or exceeds their number).\<close>

definition last_rows :: "nat \<Rightarrow> 'a list \<Rightarrow> 'a list" where
  "last_rows bs xs = (if bs = 0 then xs else drop (length xs - bs) xs)"

definition get_assignments ::
  "precision \<Rightarrow> int \<Rightarrow> fl \<Rightarrow> bool \<Rightarrow> nat \<Rightarrow> nat \<Rightarrow> mat list \<Rightarrow> error + mat list" where
  "get_assignments prec world_size epsilon improve_numerical_stability sinkhorn_iterations bs outs =
     (case scores_to_Q prec epsilon improve_numerical_stability outs of
        Inl e \<Rightarrow> Inl e
      | Inr Qs \<Rightarrow>
          Inr (map (last_rows bs)
                 (distributed_sinkhorn prec world_size Qs sinkhorn_iterations)))"


section \<open>The feature queue\<close>

text \<open>
  \<open>queue\<close> is \<open>None\<close> or a 3-D tensor: one buffer per crop of \<open>crops_for_assign\<close>, a buffer
  being a list of rows (embeddings), and the length \<open>feat\<close> of every row
  (\<open>queue.shape[2]\<close>). \<open>x[a:b]\<close> with \<open>0 \<le> a\<close> and \<open>0 \<le> b\<close> is \<open>slice a b x\<close>.
\<close>

type_synonym buffer = "fl list list"

record queue_tensor =
  feat :: nat
  bufs :: "buffer list"

definition slice :: "nat \<Rightarrow> nat \<Rightarrow> 'a list \<Rightarrow> 'a list" where
  "slice a b xs = take (b - a) (drop a xs)"

text \<open>
  \<open>dst[...] = src\<close> on slices of 2-D tensors, \<open>dst\<close> with rows of length \<open>d\<close> and \<open>src\<close>
  with rows of length \<open>e\<close>: torch expands \<open>src\<close> to the shape of \<open>dst\<close>. Each of the two
  sizes of \<open>src\<close> must be the size of \<open>dst\<close> or 1, else the assignment raises; a single
  row is repeated for every row of \<open>dst\<close>, and a row of one entry is repeated \<open>d\<close> times.
\<close>

definition assign_slice :: "nat \<Rightarrow> nat \<Rightarrow> 'a list list \<Rightarrow> 'a list list \<Rightarrow> error + 'a list list" where
  "assign_slice d e dst src =
     (if (length src = length dst \<or> length src = 1) \<and> (e = d \<or> e = 1) then
        Inr (map (\<lambda>row. if e = d then row else replicate d (hd row))
               (if length src = length dst then src else replicate (length dst) (hd src)))
      else Inl RuntimeError)"

text \<open>
  \<open>queue[i, bs:] = queue[i, :-bs].clone()\<close> and then \<open>queue[i, :bs] = new\<close>, where \<open>new\<close> is
  \<open>embedding[crop_id * bs: (crop_id + 1) * bs]\<close>. \<open>x[:-bs]\<close> drops the last \<open>bs\<close> rows, and
  is empty when \<open>bs\<close> is 0. \<open>d\<close> is the length of the rows of the queue
  (\<open>queue.shape[2]\<close>) and \<open>e\<close> that of the rows of the embedding (\<open>embedding.shape[1]\<close>).
\<close>

definition fill_queue :: "nat \<Rightarrow> nat \<Rightarrow> nat \<Rightarrow> buffer \<Rightarrow> fl list list \<Rightarrow> error + buffer" where
  "fill_queue d e bs buf new =
     (case assign_slice d d (drop bs buf) (if bs = 0 then [] else take (length buf - bs) buf) of
        Inl err \<Rightarrow> Inl err
      | Inr shifted \<Rightarrow>
          (let buf1 = take bs buf @ shifted
           in case assign_slice d e (take bs buf1) new of
                Inl err \<Rightarrow> Inl err
              | Inr front \<Rightarrow> Inr (front @ drop bs buf1)))"

text \<open>The pushes of successive batches into one buffer, oldest batch first.\<close>

fun push_batches ::
  "nat \<Rightarrow> nat \<Rightarrow> nat \<Rightarrow> buffer \<Rightarrow> fl list list list \<Rightarrow> error + buffer" where
  "push_batches d e bs buf [] = Inr buf"
| "push_batches d e bs buf (b # rest) =
     (case fill_queue d e bs buf b of
        Inl err \<Rightarrow> Inl err
      | Inr buf' \<Rightarrow> push_batches d e bs buf' rest)"

text \<open>\<open>torch.all(queue[i, -1, :] == 0)\<close> on the last row of a buffer.\<close>

definition all_zero :: "vec \<Rightarrow> bool" where
  "all_zero row = list_all (\<lambda>x. x = Fin 0) row"

text \<open>\<open>torch.mm(queue[i], prototypes.weight.t())\<close>: every row against every prototype.\<close>

definition mm_t :: "precision \<Rightarrow> mat \<Rightarrow> mat \<Rightarrow> mat" where
  "mm_t prec A W = map (\<lambda>a. map (\<lambda>w. fsum prec (map2 (fl_mul prec) a w)) W) A"

record train_state =
  queue :: "queue_tensor option"
  use_the_queue :: bool

text \<open>
  What one step of \<open>train\<close> gets: the batch size \<open>bs\<close>, the \<open>embedding\<close> with the length
  \<open>embedding_dim\<close> of its rows (\<open>embedding.shape[1]\<close>), the \<open>output\<close> of the model (the field
  \<open>output_scores\<close>) and the prototype weights.
\<close>

record step_input =
  bs :: nat
  embedding :: mat
  embedding_dim :: nat
  output_scores :: mat
  prototypes :: mat

text \<open>
  The queue part of the body of the loop over \<open>enumerate(crops_for_assign)\<close> for the pair
  \<open>(i, crop_id)\<close>: the scores \<open>out\<close> handed to the assignment, whether the scores of the queue
  were put in front of them, and the state after the buffer is filled.
\<close>

definition queue_step ::
  "precision \<Rightarrow> step_input \<Rightarrow> nat \<Rightarrow> nat \<Rightarrow> train_state
     \<Rightarrow> error + (mat \<times> bool \<times> train_state)" where
  "queue_step prec inp i crop_id s =
     (let out = slice (bs inp * crop_id) (bs inp * (crop_id + 1)) (output_scores inp)
      in case queue s of
           None \<Rightarrow> Inr (out, False, s)
         | Some qt \<Rightarrow>
             if length (bufs qt) \<le> i then Inl IndexError
             else if \<not> use_the_queue s \<and> bufs qt ! i = [] then Inl IndexError
             else
               (let used = (use_the_queue s \<or> \<not> all_zero (last (bufs qt ! i)));
                    out' = (if used then mm_t prec (bufs qt ! i) (prototypes inp) @ out else out)
                in case fill_queue (feat qt) (embedding_dim inp) (bs inp) (bufs qt ! i)
                          (slice (crop_id * bs inp) ((crop_id + 1) * bs inp) (embedding inp)) of
                     Inl e \<Rightarrow> Inl e
                   | Inr buf \<Rightarrow>
                       Inr (out', used,
                            s\<lparr>queue := Some (qt\<lparr>bufs := (bufs qt)[i := buf]\<rparr>),
                              use_the_queue := used\<rparr>)))"

text \<open>One training step: the loop over \<open>enumerate(crops_for_assign)\<close>, from position \<open>i\<close>.\<close>

fun queue_crops ::
  "precision \<Rightarrow> step_input \<Rightarrow> nat \<Rightarrow> nat list \<Rightarrow> train_state
     \<Rightarrow> error + ((mat \<times> bool) list \<times> train_state)" where
  "queue_crops prec inp i [] s = Inr ([], s)"
| "queue_crops prec inp i (crop_id # rest) s =
     (case queue_step prec inp i crop_id s of
        Inl e \<Rightarrow> Inl e
      | Inr (out, used, s1) \<Rightarrow>
          (case queue_crops prec inp (Suc i) rest s1 of
             Inl e \<Rightarrow> Inl e
           | Inr (outs, s2) \<Rightarrow> Inr ((out, used) # outs, s2)))"

text \<open>
  The steps of one epoch, from a given state. The result lists, per step and per crop of
  \<open>crops_for_assign\<close>, whether the queue was used.
\<close>

fun train_steps ::
  "precision \<Rightarrow> nat list \<Rightarrow> step_input list \<Rightarrow> train_state
     \<Rightarrow> error + (bool list list \<times> train_state)" where
  "train_steps prec crops_for_assign [] s = Inr ([], s)"
| "train_steps prec crops_for_assign (inp # rest) s =
     (case queue_crops prec inp 0 crops_for_assign s of
        Inl e \<Rightarrow> Inl e
      | Inr (outs, s1) \<Rightarrow>
          (case train_steps prec crops_for_assign rest s1 of
             Inl e \<Rightarrow> Inl e
           | Inr (trace, s2) \<Rightarrow> Inr (map snd outs # trace, s2)))"

text \<open>\<open>train\<close> sets \<open>use_the_queue = False\<close>, runs the steps of the epoch and returns the queue.\<close>

definition train ::
  "precision \<Rightarrow> nat list \<Rightarrow> step_input list \<Rightarrow> queue_tensor option
     \<Rightarrow> error + (bool list list \<times> queue_tensor option)" where
  "train prec crops_for_assign loader q =
     (case train_steps prec crops_for_assign loader \<lparr>queue = q, use_the_queue = False\<rparr> of
        Inl e \<Rightarrow> Inl e
      | Inr (trace, s) \<Rightarrow> Inr (trace, queue s))"

section \<open>Building the queue in \<open>main\<close>\<close>

record args =
  queue_length :: int
  batch_size :: int
  world_size :: int
  epoch_queue_starts :: int
  feat_dim :: nat
  crops_for_assign :: "nat list"

text \<open>\<open>args.queue_length -= args.queue_length % (args.batch_size * args.world_size)\<close>\<close>

definition truncate_queue_length :: "int \<Rightarrow> int \<Rightarrow> int \<Rightarrow> error + int" where
  "truncate_queue_length ql batch world =
     (if batch * world = 0 then Inl ZeroDivisionError
      else Inr (ql - ql mod (batch * world)))"

text \<open>
  The queue read at start-up: \<open>None\<close>, or the content of the file of this rank when the file
  exists (\<open>file\<close> is \<open>None\<close> when it does not).
\<close>

definition build_queue :: "queue_tensor option \<Rightarrow> queue_tensor option" where
  "build_queue file = (case file of None \<Rightarrow> None | Some stored \<Rightarrow> Some stored)"

text \<open>
  "optionally starts a queue", at the top of every epoch. \<open>torch.zeros\<close> raises on a
  negative size.
\<close>

definition start_queue ::
  "args \<Rightarrow> int \<Rightarrow> queue_tensor option \<Rightarrow> error + queue_tensor option" where
  "start_queue a epoch q =
     (if 0 < queue_length a \<and> epoch_queue_starts a \<le> epoch \<and> q = None then
        (if world_size a = 0 then Inl ZeroDivisionError
         else if queue_length a div world_size a < 0 then Inl RuntimeError
         else Inr (Some \<lparr>feat = feat_dim a,
                 bufs = replicate (length (crops_for_assign a))
                   (replicate (nat (queue_length a div world_size a))
                      (replicate (feat_dim a) (Fin 0)))\<rparr>))
      else Inr q)"

text \<open>
  The loop over the epochs of \<open>main\<close>, the loader of each epoch given: the queue is started
  when due, \<open>train\<close> runs, and its queue goes to the next epoch.
\<close>

fun run_epochs ::
  "precision \<Rightarrow> args \<Rightarrow> int \<Rightarrow> step_input list list \<Rightarrow> queue_tensor option
     \<Rightarrow> error + (bool list list list \<times> queue_tensor option)" where
  "run_epochs prec a epoch [] q = Inr ([], q)"
| "run_epochs prec a epoch (loader # rest) q =
     (case start_queue a epoch q of
        Inl e \<Rightarrow> Inl e
      | Inr q1 \<Rightarrow>
          (case train prec (crops_for_assign a) loader q1 of
             Inl e \<Rightarrow> Inl e
           | Inr (trace, q2) \<Rightarrow>
               (case run_epochs prec a (epoch + 1) rest q2 of
                  Inl e \<Rightarrow> Inl e
                | Inr (traces, q3) \<Rightarrow> Inr (trace # traces, q3))))"

text \<open>\<open>main\<close> from the queue file to the end of the run.\<close>

definition main_queue ::
  "precision \<Rightarrow> args \<Rightarrow> int \<Rightarrow> step_input list list \<Rightarrow> queue_tensor option
     \<Rightarrow> error + (bool list list list \<times> queue_tensor option)" where
  "main_queue prec a start_epoch loaders file =
     (case truncate_queue_length (queue_length a) (batch_size a) (world_size a) of
        Inl e \<Rightarrow> Inl e
      | Inr ql \<Rightarrow>
          run_epochs prec (a\<lparr>queue_length := ql\<rparr>) start_epoch loaders (build_queue file))"

section \<open>The loss of a training step\<close>

text \<open>
  \<open>nn.Softmax(dim=1)\<close> of a matrix: every entry of a row is its exponential over the sum of
  the exponentials of the row, which torch computes with the maximum of the row subtracted
  from every entry first.
\<close>

definition row_max :: "vec \<Rightarrow> fl" where
  "row_max row = (case row of [] \<Rightarrow> NaN | x # rest \<Rightarrow> foldl fmax x rest)"

definition softmax :: "precision \<Rightarrow> mat \<Rightarrow> mat" where
  "softmax prec x =
     map (\<lambda>row.
        let es = map (\<lambda>v. fl_exp prec (fl_sub prec v (row_max row))) row
        in map (\<lambda>e. fl_div prec e (fsum prec es)) es) x"

text \<open>
  \<open>a * b\<close> on two tensors along their first dimension: the entries are paired when the
  sizes agree, a tensor of size 1 is repeated, and other sizes raise.
\<close>

definition broadcast :: "('a \<Rightarrow> 'b \<Rightarrow> 'c) \<Rightarrow> 'a list \<Rightarrow> 'b list \<Rightarrow> error + 'c list" where
  "broadcast f xs ys =
     (if length xs = length ys then Inr (map2 f xs ys)
      else if length xs = 1 then Inr (map (f (hd xs)) ys)
      else if length ys = 1 then Inr (map (\<lambda>x. f x (hd ys)) xs)
      else Inl RuntimeError)"

text \<open>
  \<open>torch.sum(q * torch.log(p), dim=1)\<close>. \<open>q\<close> and \<open>p\<close> have one column per prototype, so
  their rows pair entry by entry.
\<close>

definition sum_q_log_p :: "precision \<Rightarrow> mat \<Rightarrow> mat \<Rightarrow> error + vec" where
  "sum_q_log_p prec q p =
     broadcast (\<lambda>qr pr. fsum prec (map2 (fl_mul prec) qr (map (fl_log prec) pr))) q p"

text \<open>\<open>p = softmax(output[bs * v: bs * (v + 1)] / args.temperature)\<close>\<close>

definition prediction :: "precision \<Rightarrow> fl \<Rightarrow> nat \<Rightarrow> mat \<Rightarrow> nat \<Rightarrow> mat" where
  "prediction prec temperature b out v =
     softmax prec (map (map (\<lambda>x. fl_div prec x temperature)) (slice (b * v) (b * (v + 1)) out))"

text \<open>
  The term that one other crop \<open>v\<close> takes from \<open>subloss\<close>. \<open>sample_weight\<close> is a 1-D tensor,
  one weight per sample of the step.
\<close>

definition crop_term ::
  "precision \<Rightarrow> int \<Rightarrow> int \<Rightarrow> fl \<Rightarrow> nat \<Rightarrow> mat \<Rightarrow> vec \<Rightarrow> mat \<Rightarrow> nat \<Rightarrow> error + fl" where
  "crop_term prec epoch epoch_uota_starts temperature b out sample_weight q v =
     (let p = prediction prec temperature b out v
      in if epoch + 1 > epoch_uota_starts then
           (let w = slice (b * v) (b * (v + 1)) sample_weight
            in case sum_q_log_p prec q p of
                 Inl e \<Rightarrow> Inl e
               | Inr s \<Rightarrow>
                   (case broadcast (fl_mul prec) s w of
                      Inl e \<Rightarrow> Inl e
                    | Inr sw \<Rightarrow> Inr (mean prec sw)))
         else
           (case sum_q_log_p prec q p of
              Inl e \<Rightarrow> Inl e
            | Inr s \<Rightarrow> Inr (mean prec s)))"

text \<open>
  \<open>np.delete(np.arange(np.sum(nmb_crops)), crop_id)\<close> raises when \<open>crop_id\<close> is out of range.
\<close>

definition other_crops :: "nat \<Rightarrow> nat \<Rightarrow> error + nat list" where
  "other_crops ncrops crop_id =
     (if ncrops \<le> crop_id then Inl IndexError else Inr (filter (\<lambda>v. v \<noteq> crop_id) [0..<ncrops]))"

text \<open>\<open>subloss -= term\<close> for the terms of the other crops in turn, up to the first that raises.\<close>

fun sub_terms :: "precision \<Rightarrow> fl \<Rightarrow> (error + fl) list \<Rightarrow> error + fl" where
  "sub_terms prec subloss [] = Inr subloss"
| "sub_terms prec subloss (Inl e # _) = Inl e"
| "sub_terms prec subloss (Inr t # rest) = sub_terms prec (fl_sub prec subloss t) rest"

text \<open>
  The loss that one crop of \<open>crops_for_assign\<close> adds, its assignment \<open>q\<close> given:
  \<open>subloss / (np.sum(nmb_crops) - 1)\<close>.
\<close>

definition crop_loss ::
  "precision \<Rightarrow> int \<Rightarrow> int \<Rightarrow> fl \<Rightarrow> nat \<Rightarrow> nat \<Rightarrow> mat \<Rightarrow> vec \<Rightarrow> nat \<Rightarrow> mat \<Rightarrow> error + fl" where
  "crop_loss prec epoch epoch_uota_starts temperature b ncrops out sample_weight crop_id q =
     (case other_crops ncrops crop_id of
        Inl e \<Rightarrow> Inl e
      | Inr vs \<Rightarrow>
          (case sub_terms prec (Fin 0)
                  (map (crop_term prec epoch epoch_uota_starts temperature b out sample_weight q)
                     vs) of
             Inl e \<Rightarrow> Inl e
           | Inr subloss \<Rightarrow> Inr (fl_div prec subloss (Fin (real ncrops - 1)))))"

text \<open>
  The loss of a step from the assignments of its crops (\<open>crops\<close> pairs each crop of
  \<open>crops_for_assign\<close> with its assignment): the sum of the crops' losses over their number.
  With no crop the loss is still the integer 0, and the division raises.
\<close>

fun add_losses :: "precision \<Rightarrow> fl \<Rightarrow> (error + fl) list \<Rightarrow> error + fl" where
  "add_losses prec loss [] = Inr loss"
| "add_losses prec loss (Inl e # _) = Inl e"
| "add_losses prec loss (Inr l # rest) = add_losses prec (fl_add prec loss l) rest"

definition step_loss ::
  "precision \<Rightarrow> int \<Rightarrow> int \<Rightarrow> fl \<Rightarrow> nat \<Rightarrow> nat \<Rightarrow> mat \<Rightarrow> vec \<Rightarrow> (nat \<times> mat) list
     \<Rightarrow> error + fl" where
  "step_loss prec epoch epoch_uota_starts temperature b ncrops out sample_weight crops =
     (case add_losses prec (Fin 0)
             (map (\<lambda>(crop_id, q).
                crop_loss prec epoch epoch_uota_starts temperature b ncrops out sample_weight
                  crop_id q)
              crops) of
        Inl e \<Rightarrow> Inl e
      | Inr loss \<Rightarrow>
          if crops = [] then Inl ZeroDivisionError
          else Inr (fl_div prec loss (Fin (real (length crops)))))"

section \<open>The two forms of the loss in words\<close>

text \<open>
  The loss as the specification words it, to compare \<open>step_loss\<close> with. The cross-entropy
  term of a sample is minus the sum over the prototypes of assignment times logarithm of the
  prediction. The average over the batch is taken of the terms as they are (unweighted
  form) or of each term times the weight of its sample (weighted form). The loss of an
  assigned crop is the sum of these averages over the other crops, over the count of the
  other crops, and the loss of the step is the sum over the assigned crops over their
  number. Sums run from the left, as the accumulations of the program do.
\<close>

definition cross_entropy_terms :: "precision \<Rightarrow> mat \<Rightarrow> mat \<Rightarrow> vec" where
  "cross_entropy_terms prec q p =
     map2 (\<lambda>qr pr. fneg (fsum prec (map2 (fl_mul prec) qr (map (fl_log prec) pr)))) q p"

definition batch_average :: "precision \<Rightarrow> bool \<Rightarrow> vec \<Rightarrow> vec \<Rightarrow> fl" where
  "batch_average prec weighted terms w =
     mean prec (if weighted then map2 (fl_mul prec) terms w else terms)"

definition running_sum :: "precision \<Rightarrow> fl list \<Rightarrow> fl" where
  "running_sum prec xs = foldl (fl_add prec) (Fin 0) xs"

definition spec_crop_loss ::
  "precision \<Rightarrow> bool \<Rightarrow> fl \<Rightarrow> nat \<Rightarrow> nat \<Rightarrow> mat \<Rightarrow> vec \<Rightarrow> nat \<Rightarrow> mat \<Rightarrow> fl" where
  "spec_crop_loss prec weighted temperature b ncrops out sample_weight crop_id q =
     (let others = filter (\<lambda>v. v \<noteq> crop_id) [0..<ncrops]
      in fl_div prec
           (running_sum prec
              (map (\<lambda>v. batch_average prec weighted
                           (cross_entropy_terms prec q (prediction prec temperature b out v))
                           (slice (b * v) (b * (v + 1)) sample_weight))
                 others))
           (Fin (real (length others))))"

definition spec_loss ::
  "precision \<Rightarrow> bool \<Rightarrow> fl \<Rightarrow> nat \<Rightarrow> nat \<Rightarrow> mat \<Rightarrow> vec \<Rightarrow> (nat \<times> mat) list \<Rightarrow> fl" where
  "spec_loss prec weighted temperature b ncrops out sample_weight crops =
     fl_div prec
       (running_sum prec
          (map (\<lambda>(crop_id, q).
                  spec_crop_loss prec weighted temperature b ncrops out sample_weight crop_id q)
             crops))
       (Fin (real (length crops)))"

section \<open>The values of a run of one worker\<close>

text \<open>
  The results that the computation of the assignments passes through on one worker when
  every operation gives its exact result, in the order of the program: the scores over
  \<open>epsilon\<close>, the scores after the subtraction of their maximum (with
  \<open>improve_numerical_stability\<close>), the exponentials, their sum, \<open>Q\<close> after the division by
  the sum, \<open>r\<close> and \<open>c\<close>, and in every round the row sums, the row factors, \<open>Q\<close> after
  the row scaling, the column sums, the column factors and \<open>Q\<close> after the column scaling.
  A run stays in range at a precision when none of these values overflows or underflows
  there; at the precision \<open>Exact\<close> every run does.
\<close>

definition in_range :: "precision \<Rightarrow> fl list \<Rightarrow> bool" where
  "in_range prec xs = list_all (\<lambda>x. to_range prec x = x) xs"

definition iteration_values :: "vec \<Rightarrow> vec \<Rightarrow> mat \<Rightarrow> fl list" where
  "iteration_values r c Q =
     (let U = row_sums Exact Q;
          u = map2 fdiv r U;
          Q1 = scale_rows Exact (shoot_infs_vec u) Q;
          V = col_sums Exact Q1;
          f = map2 fdiv c V
      in U @ u @ concat Q1 @ V @ f @ concat (scale_cols Exact f Q1))"

fun loop_values :: "nat \<Rightarrow> vec \<Rightarrow> vec \<Rightarrow> mat \<Rightarrow> fl list" where
  "loop_values 0 r c Q = []"
| "loop_values (Suc n) r c Q =
     iteration_values r c Q
       @ loop_values n r c (hd (sinkhorn_iteration Exact [(r, c)] [Q]))"

definition one_worker_values :: "fl \<Rightarrow> bool \<Rightarrow> nat \<Rightarrow> mat \<Rightarrow> fl list" where
  "one_worker_values epsilon improve_numerical_stability sinkhorn_iterations out =
     (let q = map (map (\<lambda>x. fdiv x epsilon)) out;
          M = foldl fmax (hd (concat q)) (tl (concat q));
          q1 = (if improve_numerical_stability then map (map (\<lambda>x. fsub x M)) q else q);
          E = map (map fexp) q1;
          Q = shoot_infs_mat (transpose E);
          sum_Q = exact_sum (concat Q);
          Q0 = map (map (\<lambda>x. fdiv x sum_Q)) Q;
          r = r_vec Exact Q0;
          c = c_vec Exact 1 Q0
      in concat q @ concat q1 @ concat E @ [sum_Q] @ concat Q0 @ r @ c
           @ loop_values sinkhorn_iterations r c Q0)"

section \<open>Matrices of positive reals\<close>


section \<open>Results inside the range\<close>

lemma to_range_Exact [simp]: "to_range Exact x = x"
  by (cases x) (simp_all add: overflows_def underflows_def)

lemma to_range_small [simp]:
  "a = 0 \<or> (1 / 2 ^ 150 < \<bar>a\<bar> \<and> \<bar>a\<bar> < 2 ^ 127) \<Longrightarrow> to_range prec (Fin a) = Fin a"
  by (auto simp: overflows_def underflows_def)

lemma to_range_fneg: "to_range prec (fneg x) = fneg (to_range prec x)"
  by (cases x) (auto simp: overflows_def underflows_def)

declare to_range.simps(1) [simp del]

lemmas queue_arith = fsum_def fl_mul_def

lemmas fl_arith = fl_add_def fl_sub_def fl_mul_def fl_div_def fl_exp_def fl_log_def fsum_def

section \<open>Exact arithmetic on finite entries\<close>

lemma exact_ops [simp]:
  "fl_add Exact = fadd" "fl_sub Exact = fsub" "fl_mul Exact = fmul" "fl_div Exact = fdiv"
  "fl_exp Exact = fexp" "fl_log Exact = flog" "fsum Exact = exact_sum"
  by (intro ext, simp add: fl_arith)+

lemma fsum_map_Fin: "exact_sum (map Fin xs) = Fin (sum_list xs)"
  by (induction xs) simp_all


section \<open>The capacity of the queue\<close>

text \<open>
  C9. When \<open>batch_size * world_size\<close> is positive, the configured queue length becomes the
  greatest multiple of \<open>batch_size * world_size\<close> that does not exceed it: the result
  divides, is at most the configured length and less than one multiple below it, and
  no multiple up to the configured length is greater.
\<close>

theorem truncate_queue_length_lower_multiple:
  assumes "0 < batch * world"
  shows "\<exists>ql'. truncate_queue_length ql batch world = Inr ql'
           \<and> batch * world dvd ql' \<and> ql' \<le> ql \<and> ql < ql' + batch * world
           \<and> (\<forall>m. batch * world dvd m \<and> m \<le> ql \<longrightarrow> m \<le> ql')"
proof -
  let ?d = "batch * world"
  let ?r = "ql - ql mod ?d"
  have eq: "truncate_queue_length ql batch world = Inr ?r"
    using assms by (auto simp: truncate_queue_length_def)
  have d1: "?d dvd ?r" by (simp add: dvd_minus_mod)
  have d2: "?r \<le> ql" using assms by simp
  have d3: "ql < ?r + ?d" using assms pos_mod_bound [of ?d ql] by linarith
  have d4: "m \<le> ?r" if "?d dvd m" "m \<le> ql" for m
  proof -
    from that(1) obtain k where k: "m = ?d * k" by (auto simp: dvd_def)
    from d1 obtain j where j: "?r = ?d * j" by (auto simp: dvd_def)
    have "?d * k < ?d * (j + 1)" using that(2) d3 k j by (simp add: algebra_simps)
    then have "k < j + 1" using assms by (simp add: mult_less_cancel_left_pos)
    then have "?d * k \<le> ?d * j" using assms by (simp add: mult_le_cancel_left_pos)
    then show ?thesis using k j by simp
  qed
  show ?thesis using eq d1 d2 d3 d4 by blast
qed

text \<open>A configured length of 10 with a batch size of 4 and one worker becomes 8.\<close>

theorem truncate_queue_length_example:
  "(0::int) < 4 * 1 \<and> truncate_queue_length 10 4 1 = Inr 8"
proof -
  have h: "(0::int) < 4 * 1" by simp
  from truncate_queue_length_lower_multiple [OF h, of 10]
  obtain ql' where a: "truncate_queue_length 10 4 1 = Inr ql'" and "4 * 1 dvd ql'"
     and "ql' \<le> 10" and "10 < ql' + 4 * 1" by blast
  then have "ql' = 8" by presburger
  with a h show ?thesis by simp
qed

section \<open>Pushing into the queue\<close>

lemma assign_slice_same: "length src = length dst \<Longrightarrow> assign_slice d d dst src = Inr src"
  by (simp add: assign_slice_def)

lemma fill_queue_push:
  assumes "0 < b" and "b \<le> length buf" and "length new = b"
  shows "fill_queue d d b buf new = Inr (new @ take (length buf - b) buf)"
proof -
  have s1: "assign_slice d d (drop b buf) (take (length buf - b) buf)
              = Inr (take (length buf - b) buf)"
    by (rule assign_slice_same) simp
  have s2: "assign_slice d d (take b buf) new = Inr new"
    by (rule assign_slice_same) (use assms in simp)
  show ?thesis
    unfolding fill_queue_def using assms(1,2) by (simp add: s1 s2 Let_def)
qed

lemma push_batches_fifo:
  assumes "0 < b" and "\<forall>batch \<in> set batches. length batch = b"
      and "length batches * b \<le> length buf"
  shows "push_batches d d b buf batches
           = Inr (concat (rev batches) @ take (length buf - length batches * b) buf)"
  using assms(2,3)
proof (induction batches arbitrary: buf)
  case Nil
  then show ?case by simp
next
  case (Cons x rest)
  let ?buf' = "x @ take (length buf - b) buf"
  have lx: "length x = b" using Cons.prems(1) by simp
  have le: "b \<le> length buf" using Cons.prems(2) by simp
  have step: "fill_queue d d b buf x = Inr ?buf'"
    using fill_queue_push [OF assms(1) le lx] .
  have len: "length ?buf' = length buf" using lx le by simp
  have ih: "push_batches d d b ?buf' rest
              = Inr (concat (rev rest) @ take (length ?buf' - length rest * b) ?buf')"
  proof (rule Cons.IH)
    show "\<forall>batch\<in>set rest. length batch = b" using Cons.prems(1) by simp
    show "length rest * b \<le> length ?buf'" using Cons.prems(2) len by simp
  qed
  have tk: "take (length buf - length rest * b) ?buf'
              = x @ take (length buf - length (x # rest) * b) buf"
    using lx le Cons.prems(2) by (simp add: min_def add.commute)
  have "push_batches d d b buf (x # rest) = push_batches d d b ?buf' rest"
    by (simp add: step)
  also have "\<dots> = Inr (concat (rev rest) @ take (length buf - length rest * b) ?buf')"
    using ih by (simp only: len)
  also have "\<dots> = Inr (concat (rev (x # rest)) @ take (length buf - length (x # rest) * b) buf)"
    by (simp only: tk) simp
  finally show ?case .
qed

text \<open>
  The second assignment raises when the rows of the batch have neither the length of the
  rows of the queue nor the length 1.
\<close>

lemma fill_queue_width_mismatch:
  assumes "0 < b" and "b \<le> length buf" and "e \<noteq> d" and "e \<noteq> 1"
  shows "fill_queue d e b buf new = Inl RuntimeError"
proof -
  have s1: "assign_slice d d (drop b buf) (take (length buf - b) buf)
              = Inr (take (length buf - b) buf)"
    by (rule assign_slice_same) simp
  show ?thesis
    unfolding fill_queue_def using assms by (simp add: s1 Let_def assign_slice_def)
qed

text \<open>
  C8. The rows of the buffer and of the batches have the length \<open>d\<close> of the rows of the
  queue. A push of a batch of \<open>b\<close> rows into a non-empty buffer whose capacity is a multiple
  of \<open>b\<close> leaves the batch at the front, followed by the previous content without its last
  \<open>b\<close> rows. After the pushes of \<open>n\<close> batches, \<open>n * b\<close> within the capacity, the buffer
  holds the batches from the newest to the oldest, followed by what is left of the
  initial content.
\<close>

theorem fill_queue_fifo:
  assumes "length new = b" and "b dvd length buf" and "buf \<noteq> []"
      and "\<forall>row \<in> set buf. length row = d" and "\<forall>row \<in> set new. length row = d"
      and "\<forall>batch \<in> set batches. length batch = b \<and> (\<forall>row \<in> set batch. length row = d)"
      and "length batches * b \<le> length buf"
  shows "fill_queue d d b buf new = Inr (new @ take (length buf - b) buf)
       \<and> push_batches d d b buf batches
           = Inr (concat (rev batches) @ take (length buf - length batches * b) buf)"
proof -
  have pos: "0 < b" using assms(2,3) by (cases "b = 0") auto
  have le: "b \<le> length buf" using assms(2,3) by (auto intro: dvd_imp_le)
  have bl: "\<forall>batch \<in> set batches. length batch = b" using assms(6) by simp
  show ?thesis
    using fill_queue_push [OF pos le assms(1)] push_batches_fifo [OF pos bl assms(7)] by simp
qed

text \<open>Two batches of two rows pushed into a buffer of four rows, the rows of length 1.\<close>

theorem fill_queue_fifo_example:
  "fill_queue 1 1 2 [[Fin 0], [Fin 0], [Fin 0], [Fin 0]] [[Fin 5], [Fin 6]]
     = Inr [[Fin 5], [Fin 6], [Fin 0], [Fin 0]]
   \<and> push_batches 1 1 2 [[Fin 0], [Fin 0], [Fin 0], [Fin 0]]
        [[[Fin 1], [Fin 2]], [[Fin 3], [Fin 4]]]
     = Inr [[Fin 3], [Fin 4], [Fin 1], [Fin 2]]"
  using fill_queue_fifo [of "[[Fin 5], [Fin 6]]" 2 "[[Fin 0], [Fin 0], [Fin 0], [Fin 0]]" 1
      "[[[Fin 1], [Fin 2]], [[Fin 3], [Fin 4]]]"]
  by simp

section \<open>The flag \<open>use_the_queue\<close>\<close>


lemma queue_step_latched:
  assumes "queue_step prec inp i crop_id s = Inr (out, used, s1)"
      and "use_the_queue s" and "queue s \<noteq> None"
  shows "used \<and> use_the_queue s1 \<and> queue s1 \<noteq> None"
  using assms
  by (auto simp: queue_step_def Let_def split: option.splits if_splits sum.splits)

lemma queue_step_observed:
  assumes "queue_step prec inp i crop_id s = Inr (out, used, s1)"
      and "queue s = Some qt" and "\<not> all_zero (last (bufs qt ! i))"
  shows "used \<and> use_the_queue s1 \<and> queue s1 \<noteq> None"
  using assms
  by (auto simp: queue_step_def Let_def split: option.splits if_splits sum.splits)

lemma queue_crops_latched:
  assumes "queue_crops prec inp i crops s = Inr (outs, s1)"
      and "use_the_queue s" and "queue s \<noteq> None"
  shows "list_all snd outs \<and> use_the_queue s1 \<and> queue s1 \<noteq> None"
  using assms
proof (induction crops arbitrary: i s outs)
  case Nil
  then show ?case by simp
next
  case (Cons c rest)
  from Cons.prems(1) obtain out used sa outs' where
    st: "queue_step prec inp i c s = Inr (out, used, sa)" and
    re: "queue_crops prec inp (Suc i) rest sa = Inr (outs', s1)" and
    os: "outs = (out, used) # outs'"
    by (auto split: sum.splits prod.splits)
  from queue_step_latched [OF st Cons.prems(2,3)]
  have a: "used" "use_the_queue sa" "queue sa \<noteq> None" by simp_all
  from Cons.IH [OF re a(2,3)] a(1) os show ?case by simp
qed

lemma train_steps_latched:
  assumes "train_steps prec crops loader s = Inr (trace, s1)"
      and "use_the_queue s" and "queue s \<noteq> None"
  shows "list_all (list_all (\<lambda>used. used)) trace \<and> use_the_queue s1 \<and> queue s1 \<noteq> None"
  using assms
proof (induction loader arbitrary: s trace)
  case Nil
  then show ?case by simp
next
  case (Cons inp rest)
  from Cons.prems(1) obtain outs sa trace' where
    st: "queue_crops prec inp 0 crops s = Inr (outs, sa)" and
    re: "train_steps prec crops rest sa = Inr (trace', s1)" and
    tr: "trace = map snd outs # trace'"
    by (auto split: sum.splits prod.splits)
  from queue_crops_latched [OF st Cons.prems(2,3)]
  have a: "list_all snd outs" "use_the_queue sa" "queue sa \<noteq> None" by simp_all
  from Cons.IH [OF re a(2,3)] a(1) tr show ?case by (auto simp: list_all_iff)
qed

text \<open>
  C3, as the code has it. \<open>use_the_queue\<close> is a variable of \<open>train\<close>, one for all crops.
  Within one epoch: when the queue is present and, at the pair \<open>(i, crop_id)\<close> of a step,
  the flag is already set or the last row of buffer \<open>i\<close> is not all zero, then the queue is
  used at this pair, at every later pair of the same step and at every pair of every later
  step of the epoch, whatever the buffers hold then, and the flag is set when the epoch
  ends. Nothing is said across epochs: \<open>train\<close> starts every epoch with the flag cleared.
\<close>

theorem use_the_queue_latch_within_epoch:
  assumes "queue s = Some qt"
      and "queue_step prec inp i crop_id s = Inr (out, used, s1)"
      and "use_the_queue s \<or> \<not> all_zero (last (bufs qt ! i))"
      and "queue_crops prec inp (Suc i) rest s1 = Inr (outs, s2)"
      and "train_steps prec crops loader s2 = Inr (trace, s3)"
  shows "used \<and> list_all snd outs \<and> list_all (list_all (\<lambda>u. u)) trace \<and> use_the_queue s3"
proof -
  have a: "used \<and> use_the_queue s1 \<and> queue s1 \<noteq> None"
    using assms(3)
  proof
    assume "use_the_queue s"
    then show ?thesis using queue_step_latched [OF assms(2)] assms(1) by simp
  next
    assume "\<not> all_zero (last (bufs qt ! i))"
    then show ?thesis using queue_step_observed [OF assms(2) assms(1)] by simp
  qed
  then have b: "list_all snd outs \<and> use_the_queue s2 \<and> queue s2 \<noteq> None"
    using queue_crops_latched [OF assms(4)] by simp
  then have "list_all (list_all (\<lambda>u. u)) trace \<and> use_the_queue s3 \<and> queue s3 \<noteq> None"
    using train_steps_latched [OF assms(5)] by simp
  with a b show ?thesis by simp
qed

text \<open>
  A buffer of one row holding a non-zero embedding: the step uses the queue and pushes an
  all-zero embedding; the next step of the epoch still uses the queue.
\<close>

theorem use_the_queue_latch_example:
  "queue_step Float32
       \<lparr>bs = 1, embedding = [[Fin 0]], embedding_dim = 1, output_scores = [[Fin 0]],
        prototypes = [[Fin 1]]\<rparr> 0 0
       \<lparr>queue = Some \<lparr>feat = 1, bufs = [[[Fin 1]]]\<rparr>, use_the_queue = False\<rparr>
     = Inr ([[Fin 1], [Fin 0]], True,
            \<lparr>queue = Some \<lparr>feat = 1, bufs = [[[Fin 0]]]\<rparr>, use_the_queue = True\<rparr>)
   \<and> train_steps Float32 [0]
       [\<lparr>bs = 1, embedding = [[Fin 0]], embedding_dim = 1, output_scores = [[Fin 0]],
         prototypes = [[Fin 1]]\<rparr>]
       \<lparr>queue = Some \<lparr>feat = 1, bufs = [[[Fin 0]]]\<rparr>, use_the_queue = True\<rparr>
     = Inr ([[True]], \<lparr>queue = Some \<lparr>feat = 1, bufs = [[[Fin 0]]]\<rparr>, use_the_queue = True\<rparr>)
   \<and> list_all (list_all (\<lambda>u. u)) [[True]]"
proof -
  let ?inp = "\<lparr>bs = 1, embedding = [[Fin 0]], embedding_dim = 1, output_scores = [[Fin 0]],
               prototypes = [[Fin 1]]\<rparr>"
  let ?qt = "\<lparr>feat = 1, bufs = [[[Fin 1]]]\<rparr>"
  let ?s = "\<lparr>queue = Some ?qt, use_the_queue = False\<rparr>"
  let ?s1 = "\<lparr>queue = Some \<lparr>feat = 1, bufs = [[[Fin 0]]]\<rparr>, use_the_queue = True\<rparr>"
  have h1: "queue ?s = Some ?qt" by simp
  have h2: "queue_step Float32 ?inp 0 0 ?s = Inr ([[Fin 1], [Fin 0]], True, ?s1)"
    by (simp add: queue_step_def fill_queue_def assign_slice_def slice_def all_zero_def
          mm_t_def queue_arith Let_def)
  have h3: "use_the_queue ?s \<or> \<not> all_zero (last (bufs ?qt ! 0))"
    by (simp add: all_zero_def)
  have h4: "queue_crops Float32 ?inp (Suc 0) [] ?s1 = Inr ([], ?s1)" by simp
  have h5: "train_steps Float32 [0] [?inp] ?s1 = Inr ([[True]], ?s1)"
    by (simp add: queue_step_def fill_queue_def assign_slice_def slice_def all_zero_def
          mm_t_def queue_arith Let_def)
  from use_the_queue_latch_within_epoch [OF h1 h2 h3 h4 h5] h2 h5 show ?thesis by simp
qed

text \<open>
  C3 as stated fails across epochs. One crop, a buffer of one row, batches of one row.
  Epoch 0: the fresh queue is all zero and the first step does not use it; it pushes a
  non-zero embedding, so the second step sees a non-zero last row and sets the flag; it
  pushes an all-zero embedding, and the third step uses the queue all the same. Epoch 1:
  \<open>train\<close> clears the flag, the last row is all zero, and the step does not use the queue.
\<close>

theorem use_the_queue_reset_next_epoch:
  "main_queue Float32
     \<lparr>queue_length = 1, batch_size = 1, world_size = 1, epoch_queue_starts = 0,
      feat_dim = 1, crops_for_assign = [0]\<rparr> 0
     [[\<lparr>bs = 1, embedding = [[Fin 1]], embedding_dim = 1, output_scores = [[Fin 0]],
        prototypes = [[Fin 1]]\<rparr>,
       \<lparr>bs = 1, embedding = [[Fin 0]], embedding_dim = 1, output_scores = [[Fin 0]],
        prototypes = [[Fin 1]]\<rparr>,
       \<lparr>bs = 1, embedding = [[Fin 0]], embedding_dim = 1, output_scores = [[Fin 0]],
        prototypes = [[Fin 1]]\<rparr>],
      [\<lparr>bs = 1, embedding = [[Fin 0]], embedding_dim = 1, output_scores = [[Fin 0]],
        prototypes = [[Fin 1]]\<rparr>]] None
   = Inr ([[[False], [True], [True]], [[False]]], Some \<lparr>feat = 1, bufs = [[[Fin 0]]]\<rparr>)"
  by (simp add: main_queue_def truncate_queue_length_def build_queue_def start_queue_def train_def
        queue_step_def fill_queue_def assign_slice_def slice_def all_zero_def mm_t_def
        queue_arith Let_def)

section \<open>A queue read from the file\<close>



section \<open>What \<open>shoot_infs\<close> replaces\<close>

lemma fmax_finite: "isfinite a \<Longrightarrow> isfinite b \<Longrightarrow> isfinite (fmax a b)"
  by (cases a; cases b) simp_all

lemma foldl_fmax_finite:
  "isfinite x \<Longrightarrow> list_all isfinite xs \<Longrightarrow> isfinite (foldl fmax x xs)"
  by (induction xs arbitrary: x) (simp_all add: fmax_finite)

lemma foldl_fmax_Fin:
  "\<exists>r. foldl fmax (Fin a) (map Fin as) = Fin r \<and> r \<in> set (a # as) \<and> (\<forall>x \<in> set (a # as). x \<le> r)"
proof (induction as arbitrary: a)
  case Nil
  then show ?case by simp
next
  case (Cons b bs)
  from Cons.IH [of "max a b"] obtain r where
    r: "foldl fmax (Fin (max a b)) (map Fin bs) = Fin r" "r \<in> set (max a b # bs)"
       "\<forall>x \<in> set (max a b # bs). x \<le> r"
    by blast
  have "r \<in> set (a # b # bs)" using r(2) by (auto simp: max_def split: if_splits)
  moreover have "\<forall>x \<in> set (a # b # bs). x \<le> r" using r(3) by (auto simp: max_def split: if_splits)
  ultimately show ?case using r(1) by auto
qed

lemma all_finite_map_Fin: "list_all isfinite zs \<Longrightarrow> \<exists>rs. zs = map Fin rs"
proof (induction zs)
  case Nil
  show ?case by simp
next
  case (Cons z zs)
  then obtain rs where rs: "zs = map Fin rs" by auto
  from Cons.prems obtain r where r: "z = Fin r" by (cases z) auto
  show ?case by (rule exI [of _ "r # rs"]) (simp add: rs r)
qed

lemma not_inf_not_nan_finite: "\<not> isinf x \<Longrightarrow> x \<noteq> NaN \<Longrightarrow> isfinite x"
  by (cases x) auto

lemma no_nan_zero_infs_finite:
  "NaN \<notin> set xs \<Longrightarrow> list_all isfinite (zero_infs xs)"
  by (induction xs) (auto simp: zero_infs_def not_inf_not_nan_finite)

lemma list_ex_isinf_zero_infs_nonempty: "list_ex isinf xs \<Longrightarrow> zero_infs xs \<noteq> []"
  by (cases xs) (simp_all add: zero_infs_def)

lemma torch_max_finite:
  assumes "list_all isfinite zs" and "zs \<noteq> []"
  shows "\<exists>r. torch_max zs = Inr (Fin r) \<and> Fin r \<in> set zs \<and> (\<forall>a. Fin a \<in> set zs \<longrightarrow> a \<le> r)"
proof -
  from all_finite_map_Fin [OF assms(1)] obtain rs where rs: "zs = map Fin rs" by blast
  with assms(2) obtain a as where c: "rs = a # as" by (cases rs) auto
  from foldl_fmax_Fin [of a as] obtain r where
    r: "foldl fmax (Fin a) (map Fin as) = Fin r" "r \<in> set (a # as)" "\<forall>x \<in> set (a # as). x \<le> r"
    by blast
  have tm: "torch_max zs = Inr (Fin r)" using rs c r(1) by simp
  have mem: "Fin r \<in> set zs" using r(2) rs c by auto
  have ub: "\<forall>x. Fin x \<in> set zs \<longrightarrow> x \<le> r" using r(3) rs c by auto
  show ?thesis using tm mem ub by blast
qed

lemma zero_infs_concat: "zero_infs (concat xss) = concat (map zero_infs xss)"
  by (induction xss) (simp_all add: zero_infs_def)

lemma shoot_infs_unfold:
  "shoot_infs t =
     (if \<not> list_ex isinf (entries t) then t
      else (case torch_max (zero_infs (entries t)) of
              Inl e \<Rightarrow> t
            | Inr m \<Rightarrow> map_entries (\<lambda>x. if isinf x then m else x) t))"
  by (cases t) (simp_all add: shoot_infs_vec_def shoot_infs_mat_def zero_infs_concat split: sum.splits)

lemma entries_map_entries: "entries (map_entries f t) = map f (entries t)"
  by (cases t) (simp_all add: map_concat)

text \<open>
  C4, as the code has it. \<open>shoot_infs\<close> tests with \<open>torch.isinf\<close>, which holds of \<open>+inf\<close> and
  \<open>-inf\<close> and not of \<open>nan\<close>. A 1-D or 2-D tensor with no infinite entry is returned
  unchanged. In a tensor with an infinite entry, every infinite entry is replaced by the
  maximum \<open>m\<close> of the tensor in which the infinite entries are set to 0, and the other
  entries are kept. When the tensor has no \<open>nan\<close>, \<open>m\<close> is finite, it is an entry of that
  zeroed tensor and no entry of it is greater, and the result has finite entries only.
\<close>

theorem shoot_infs_replaces_infinite_entries:
  "(\<not> list_ex isinf (entries t) \<longrightarrow> shoot_infs t = t)
   \<and> (list_ex isinf (entries t) \<longrightarrow>
        (\<exists>m. torch_max (zero_infs (entries t)) = Inr m
            \<and> shoot_infs t = map_entries (\<lambda>x. if isinf x then m else x) t))
   \<and> (list_ex isinf (entries t) \<and> NaN \<notin> set (entries t) \<longrightarrow>
        (\<exists>r. torch_max (zero_infs (entries t)) = Inr (Fin r)
            \<and> Fin r \<in> set (zero_infs (entries t))
            \<and> (\<forall>a. Fin a \<in> set (zero_infs (entries t)) \<longrightarrow> a \<le> r)))
   \<and> (NaN \<notin> set (entries t) \<longrightarrow> list_all isfinite (entries (shoot_infs t)))"
proof (intro conjI impI)
  assume "\<not> list_ex isinf (entries t)"
  then show "shoot_infs t = t" by (simp add: shoot_infs_unfold)
next
  assume inf: "list_ex isinf (entries t)"
  then obtain z zs where "zero_infs (entries t) = z # zs"
    using list_ex_isinf_zero_infs_nonempty by (cases "zero_infs (entries t)") auto
  then show "\<exists>m. torch_max (zero_infs (entries t)) = Inr m
            \<and> shoot_infs t = map_entries (\<lambda>x. if isinf x then m else x) t"
    using inf by (simp add: shoot_infs_unfold)
next
  assume "list_ex isinf (entries t) \<and> NaN \<notin> set (entries t)"
  then show "\<exists>r. torch_max (zero_infs (entries t)) = Inr (Fin r)
            \<and> Fin r \<in> set (zero_infs (entries t))
            \<and> (\<forall>a. Fin a \<in> set (zero_infs (entries t)) \<longrightarrow> a \<le> r)"
    using torch_max_finite [OF no_nan_zero_infs_finite list_ex_isinf_zero_infs_nonempty] by blast
next
  assume nn: "NaN \<notin> set (entries t)"
  show "list_all isfinite (entries (shoot_infs t))"
  proof (cases "list_ex isinf (entries t)")
    case False
    then have "shoot_infs t = t" by (simp add: shoot_infs_unfold)
    moreover have "list_all isfinite (entries t)"
      unfolding list_all_iff
    proof
      fix x assume "x \<in> set (entries t)"
      with False nn show "isfinite x" by (cases x) (auto simp: list_ex_iff)
    qed
    ultimately show ?thesis by simp
  next
    case True
    from torch_max_finite [OF no_nan_zero_infs_finite [OF nn] list_ex_isinf_zero_infs_nonempty [OF True]]
    obtain r where r: "torch_max (zero_infs (entries t)) = Inr (Fin r)" by blast
    have "shoot_infs t = map_entries (\<lambda>x. if isinf x then Fin r else x) t"
      using True r by (simp add: shoot_infs_unfold)
    moreover have "list_all isfinite (map (\<lambda>x. if isinf x then Fin r else x) (entries t))"
      unfolding list_all_iff
    proof
      fix y assume "y \<in> set (map (\<lambda>x. if isinf x then Fin r else x) (entries t))"
      then obtain x where "x \<in> set (entries t)" "y = (if isinf x then Fin r else x)" by auto
      with nn show "isfinite y" by (cases x) auto
    qed
    ultimately show ?thesis by (simp add: entries_map_entries)
  qed
qed

text \<open>A 2-D tensor with both infinities, a 1-D tensor whose maximum is the 0 put in, and a
  tensor with no infinite entry.\<close>

theorem shoot_infs_example:
  "shoot_infs (Mat [[Fin 1, PInf], [NInf, Fin (-2)]]) = Mat [[Fin 1, Fin 1], [Fin 1, Fin (-2)]]
   \<and> shoot_infs (Vec [Fin (-1), PInf]) = Vec [Fin (-1), Fin 0]
   \<and> shoot_infs (Vec [Fin 3, Fin 4]) = Vec [Fin 3, Fin 4]"
  using shoot_infs_replaces_infinite_entries [of "Mat [[Fin 1, PInf], [NInf, Fin (-2)]]"]
        shoot_infs_replaces_infinite_entries [of "Vec [Fin (-1), PInf]"]
        shoot_infs_replaces_infinite_entries [of "Vec [Fin 3, Fin 4]"]
  by (simp add: zero_infs_def)

text \<open>
  C4 as stated fails on \<open>nan\<close>: a \<open>nan\<close> entry is not replaced, the result has an entry that
  is not finite, and with a \<open>nan\<close> in the tensor an infinite entry is replaced by \<open>nan\<close>
  (the maximum of a tensor with a \<open>nan\<close>).
\<close>

theorem shoot_infs_keeps_nan:
  "shoot_infs (Vec [NaN, Fin 1]) = Vec [NaN, Fin 1]
   \<and> shoot_infs (Vec [NaN, PInf, Fin 1]) = Vec [NaN, NaN, Fin 1]
   \<and> \<not> list_all isfinite (entries (shoot_infs (Vec [NaN, Fin 1])))"
  by (simp add: shoot_infs_vec_def zero_infs_def)

section \<open>The column factors of the loop\<close>

lemmas sinkhorn_defs = sinkhorn_normalize_def
     sinkhorn_iteration_def sinkhorn_final_def shoot_infs_mat_def shoot_infs_vec_def
     all_reduce_sum_def all_reduce_vec_def r_vec_def c_vec_def ncols_def row_sums_def col_sums_def
     scale_rows_def scale_cols_def Let_def

lemma zero_column_normalize:
  "sinkhorn_normalize prec [[[Fin 1, Fin 0], [Fin 1, Fin 0]]]
     = [[[Fin (1/2), Fin 0], [Fin (1/2), Fin 0]]]"
  by (simp add: sinkhorn_defs fl_arith)

lemma zero_column_rc:
  "r_vec prec [[Fin (1/2), Fin 0], [Fin (1/2), Fin 0]] = [Fin (1/2), Fin (1/2)]"
  "c_vec prec 1 [[Fin (1/2), Fin 0], [Fin (1/2), Fin 0]] = [Fin (1/2), Fin (1/2)]"
  by (simp_all add: r_vec_def c_vec_def ncols_def fl_arith eval_nat_numeral)

lemma zero_column_iteration:
  "sinkhorn_iteration prec [([Fin (1/2), Fin (1/2)], [Fin (1/2), Fin (1/2)])]
       [[[Fin (1/2), Fin 0], [Fin (1/2), Fin 0]]]
     = [[[Fin (1/4), NaN], [Fin (1/4), NaN]]]"
  by (simp add: sinkhorn_defs fl_arith)

lemma nan_column_iteration:
  "sinkhorn_iteration prec [([Fin (1/2), Fin (1/2)], [Fin (1/2), Fin (1/2)])]
       [[[Fin (1/4), NaN], [Fin (1/4), NaN]]]
     = [[[NaN, NaN], [NaN, NaN]]]"
  by (simp add: sinkhorn_defs fl_arith)

lemma zero_column_final:
  "sinkhorn_final prec [[Fin (1/4), NaN], [Fin (1/4), NaN]] = [[Fin (1/2), Fin (1/2)], [NaN, NaN]]"
  "sinkhorn_final prec [[NaN, NaN], [NaN, NaN]] = [[NaN, NaN], [NaN, NaN]]"
  by (simp_all add: sinkhorn_defs fl_arith)

lemma zero_column_before_final:
  "sinkhorn_before_final prec 1 [[[Fin 1, Fin 0], [Fin 1, Fin 0]]] (Suc 0)
     = [[[Fin (1/4), NaN], [Fin (1/4), NaN]]]"
  "sinkhorn_before_final prec 1 [[[Fin 1, Fin 0], [Fin 1, Fin 0]]] (Suc (Suc 0))
     = [[[NaN, NaN], [NaN, NaN]]]"
  unfolding sinkhorn_before_final_def zero_column_normalize Let_def
  by (simp_all add: zero_column_rc zero_column_iteration nan_column_iteration eval_nat_numeral)

text \<open>
  C5 on the code. The factors \<open>c / torch.sum(Q, dim=0)\<close> are multiplied into \<open>Q\<close> as they
  are; only \<open>u\<close> goes through \<open>shoot_infs\<close>. One worker, \<open>K = 2\<close>, \<open>N = 2\<close>, the second
  column of \<open>Q\<close> all zero: the sum of that column is 0, its factor is \<open>+inf\<close>, and the
  column becomes \<open>nan\<close>; after one round the second sample's assignment is \<open>nan\<close>, after two
  rounds every entry is.
\<close>

theorem column_factor_not_sanitized:
  "distributed_sinkhorn prec 1 [[[Fin 1, Fin 0], [Fin 1, Fin 0]]] 1
     = [[[Fin (1/2), Fin (1/2)], [NaN, NaN]]]
   \<and> sinkhorn_before_final prec 1 [[[Fin 1, Fin 0], [Fin 1, Fin 0]]] 1
     = [[[Fin (1/4), NaN], [Fin (1/4), NaN]]]
   \<and> distributed_sinkhorn prec 1 [[[Fin 1, Fin 0], [Fin 1, Fin 0]]] 2
     = [[[NaN, NaN], [NaN, NaN]]]"
  by (simp add: distributed_sinkhorn_def zero_column_before_final zero_column_final
        eval_nat_numeral)

section \<open>Uniform scores\<close>

lemma q_unstable: "scores_to_Q prec (Fin (1/10)) False
       [[[Fin 0, Fin 0, Fin 0], [Fin 0, Fin 0, Fin 0], [Fin 0, Fin 0, Fin 0], [Fin 0, Fin 0, Fin 0]]]
   = Inr [[[Fin 1, Fin 1, Fin 1, Fin 1], [Fin 1, Fin 1, Fin 1, Fin 1], [Fin 1, Fin 1, Fin 1, Fin 1]]]"
  by (simp add: scores_to_Q_def fl_arith)

lemma q_stable: "scores_to_Q prec (Fin (1/10)) True
       [[[Fin 0, Fin 0, Fin 0], [Fin 0, Fin 0, Fin 0], [Fin 0, Fin 0, Fin 0], [Fin 0, Fin 0, Fin 0]]]
   = Inr [[[Fin 1, Fin 1, Fin 1, Fin 1], [Fin 1, Fin 1, Fin 1, Fin 1], [Fin 1, Fin 1, Fin 1, Fin 1]]]"
  by (simp add: scores_to_Q_def all_reduce_max_def fsub_def fl_arith)

lemma uniform_normalize:
  "sinkhorn_normalize prec
     [[[Fin 1, Fin 1, Fin 1, Fin 1], [Fin 1, Fin 1, Fin 1, Fin 1], [Fin 1, Fin 1, Fin 1, Fin 1]]]
   = [[[Fin (1/12), Fin (1/12), Fin (1/12), Fin (1/12)],
       [Fin (1/12), Fin (1/12), Fin (1/12), Fin (1/12)],
       [Fin (1/12), Fin (1/12), Fin (1/12), Fin (1/12)]]]"
  by (simp add: sinkhorn_defs fl_arith)

lemma uniform_rc:
  "r_vec prec [[Fin (1/12), Fin (1/12), Fin (1/12), Fin (1/12)],
       [Fin (1/12), Fin (1/12), Fin (1/12), Fin (1/12)],
       [Fin (1/12), Fin (1/12), Fin (1/12), Fin (1/12)]] = [Fin (1/3), Fin (1/3), Fin (1/3)]"
  "c_vec prec 1 [[Fin (1/12), Fin (1/12), Fin (1/12), Fin (1/12)],
       [Fin (1/12), Fin (1/12), Fin (1/12), Fin (1/12)],
       [Fin (1/12), Fin (1/12), Fin (1/12), Fin (1/12)]]
     = [Fin (1/4), Fin (1/4), Fin (1/4), Fin (1/4)]"
  by (simp_all add: r_vec_def c_vec_def ncols_def fl_arith eval_nat_numeral)

lemma uniform_iteration:
  "sinkhorn_iteration prec
     [([Fin (1/3), Fin (1/3), Fin (1/3)], [Fin (1/4), Fin (1/4), Fin (1/4), Fin (1/4)])]
     [[[Fin (1/12), Fin (1/12), Fin (1/12), Fin (1/12)],
       [Fin (1/12), Fin (1/12), Fin (1/12), Fin (1/12)],
       [Fin (1/12), Fin (1/12), Fin (1/12), Fin (1/12)]]]
   = [[[Fin (1/12), Fin (1/12), Fin (1/12), Fin (1/12)],
       [Fin (1/12), Fin (1/12), Fin (1/12), Fin (1/12)],
       [Fin (1/12), Fin (1/12), Fin (1/12), Fin (1/12)]]]"
  by (simp add: sinkhorn_defs fl_arith)

lemma uniform_final:
  "sinkhorn_final prec
     [[Fin (1/12), Fin (1/12), Fin (1/12), Fin (1/12)],
       [Fin (1/12), Fin (1/12), Fin (1/12), Fin (1/12)],
       [Fin (1/12), Fin (1/12), Fin (1/12), Fin (1/12)]]
   = [[Fin (1/3), Fin (1/3), Fin (1/3)], [Fin (1/3), Fin (1/3), Fin (1/3)],
       [Fin (1/3), Fin (1/3), Fin (1/3)], [Fin (1/3), Fin (1/3), Fin (1/3)]]"
  by (simp add: sinkhorn_defs fl_arith)

lemma sk: "distributed_sinkhorn prec 1
     [[[Fin 1, Fin 1, Fin 1, Fin 1], [Fin 1, Fin 1, Fin 1, Fin 1], [Fin 1, Fin 1, Fin 1, Fin 1]]] 3
   = [[[Fin (1/3), Fin (1/3), Fin (1/3)], [Fin (1/3), Fin (1/3), Fin (1/3)],
       [Fin (1/3), Fin (1/3), Fin (1/3)], [Fin (1/3), Fin (1/3), Fin (1/3)]]]"
  unfolding distributed_sinkhorn_def sinkhorn_before_final_def uniform_normalize Let_def
  by (simp add: uniform_rc uniform_iteration uniform_final eval_nat_numeral)

text \<open>
  C2. Four samples, three prototypes, one worker, \<open>epsilon = 0.1\<close>, three rounds, every score
  0, batch size 4: with or without \<open>improve_numerical_stability\<close>, in float32 as in exact
  arithmetic, the assignment is the 4 by 3 matrix whose entries are all 1/3.
\<close>

theorem uniform_scores_uniform_assignment:
  "get_assignments prec 1 (Fin (1/10)) stab 3 4
       [[[Fin 0, Fin 0, Fin 0], [Fin 0, Fin 0, Fin 0], [Fin 0, Fin 0, Fin 0], [Fin 0, Fin 0, Fin 0]]]
   = Inr [[[Fin (1/3), Fin (1/3), Fin (1/3)], [Fin (1/3), Fin (1/3), Fin (1/3)],
           [Fin (1/3), Fin (1/3), Fin (1/3)], [Fin (1/3), Fin (1/3), Fin (1/3)]]]"
  by (cases stab) (simp_all add: get_assignments_def q_stable q_unstable sk last_rows_def)

section \<open>The loss before and after \<open>epoch_uota_starts\<close>\<close>

lemma fneg_fneg: "fneg (fneg a) = a"
  by (cases a) simp_all

lemma fadd_fneg: "fadd (fneg a) (fneg b) = fneg (fadd a b)"
  by (cases a; cases b) simp_all

lemma fmul_fneg: "fmul (fneg a) b = fneg (fmul a b)"
  by (cases a; cases b) auto

lemma fdiv_fneg: "fdiv (fneg a) b = fneg (fdiv a b)"
  by (cases a; cases b) auto

lemma exact_sum_fneg: "exact_sum (map fneg xs) = fneg (exact_sum xs)"
  by (induction xs) (simp_all add: fadd_fneg)

lemma fsum_fneg: "fsum prec (map fneg xs) = fneg (fsum prec xs)"
  by (simp add: fsum_def exact_sum_fneg to_range_fneg)

lemma fl_mul_fneg: "fl_mul prec (fneg a) b = fneg (fl_mul prec a b)"
  by (simp add: fl_mul_def fmul_fneg to_range_fneg)

lemma fl_div_fneg: "fl_div prec (fneg a) b = fneg (fl_div prec a b)"
  by (simp add: fl_div_def fdiv_fneg to_range_fneg)

lemma fl_sub_fneg: "fl_sub prec s (fneg t) = fl_add prec s t"
  by (simp add: fl_sub_def fl_add_def fsub_def fneg_fneg)

lemma mean_fneg: "mean prec (map fneg xs) = fneg (mean prec xs)"
  by (simp add: mean_def fsum_fneg fl_div_fneg)

lemma map2_fl_mul_fneg:
  "map2 (fl_mul prec) (map fneg xs) ws = map fneg (map2 (fl_mul prec) xs ws)"
  by (induction xs arbitrary: ws) (auto simp: zip_Cons1 fl_mul_fneg split: list.splits)

lemma length_cross_entropy_terms:
  "length (cross_entropy_terms prec q p) = min (length q) (length p)"
  by (simp add: cross_entropy_terms_def)

lemma sum_q_log_p_terms:
  assumes "length q = length p"
  shows "sum_q_log_p prec q p = Inr (map fneg (cross_entropy_terms prec q p))"
  using assms
  by (simp add: sum_q_log_p_def broadcast_def cross_entropy_terms_def fneg_fneg
        split_def comp_def)

lemma length_prediction:
  assumes "b * (v + 1) \<le> length out"
  shows "length (prediction prec T b out v) = b"
  using assms by (simp add: prediction_def softmax_def slice_def)

lemma length_slice_weights:
  assumes "b * (v + 1) \<le> length w"
  shows "length (slice (b * v) (b * (v + 1)) w) = b"
  using assms by (simp add: slice_def)

lemma length_other_crops:
  assumes "c < n"
  shows "length (filter (\<lambda>v. v \<noteq> c) [0..<n]) = n - 1"
proof -
  have "[0..<n] = [0..<c] @ c # [Suc c..<n]"
    using assms
    by (metis less_imp_add_positive upt_add_eq_append upt_conv_Cons less_eq_nat.simps(1))
  then show ?thesis using assms by (simp add: filter_id_conv)
qed

lemma crop_term_form:
  assumes "length q = b" and "b * (v + 1) \<le> length out"
      and "uota < epoch + 1 \<Longrightarrow> b * (v + 1) \<le> length w"
  shows "crop_term prec epoch uota T b out w q v
           = Inr (fneg (batch_average prec (uota < epoch + 1)
                          (cross_entropy_terms prec q (prediction prec T b out v))
                          (slice (b * v) (b * (v + 1)) w)))"
proof -
  let ?p = "prediction prec T b out v"
  let ?ce = "cross_entropy_terms prec q ?p"
  let ?w = "slice (b * v) (b * (v + 1)) w"
  have lp: "length ?p = b" by (rule length_prediction [OF assms(2)])
  have s: "sum_q_log_p prec q ?p = Inr (map fneg ?ce)"
    by (rule sum_q_log_p_terms) (simp add: assms(1) lp)
  show ?thesis
  proof (cases "uota < epoch + 1")
    case True
    have lw: "length ?w = b" by (rule length_slice_weights [OF assms(3) [OF True]])
    have lce: "length (map fneg ?ce) = length ?w"
      using lw by (simp add: length_cross_entropy_terms assms(1) lp)
    have bw: "broadcast (fl_mul prec) (map fneg ?ce) ?w
                = Inr (map fneg (map2 (fl_mul prec) ?ce ?w))"
      unfolding broadcast_def using lce by (simp only: simp_thms if_True map2_fl_mul_fneg)
    from True show ?thesis
      by (simp only: crop_term_def Let_def s sum.case bw mean_fneg batch_average_def if_True)
  next
    case False
    then show ?thesis
      by (simp only: crop_term_def Let_def s sum.case mean_fneg batch_average_def if_False)
  qed
qed

lemma sub_terms_form:
  "sub_terms prec s (map (\<lambda>v. Inr (fneg (g v))) vs) = Inr (foldl (fl_add prec) s (map g vs))"
  by (induction vs arbitrary: s) (simp_all add: fl_sub_fneg)

lemma add_losses_form:
  "add_losses prec a (map (\<lambda>x. Inr (h x)) xs) = Inr (foldl (fl_add prec) a (map h xs))"
  by (induction xs arbitrary: a) simp_all

lemma crop_loss_form:
  assumes "crop_id < ncrops" and "length q = b" and "b * ncrops \<le> length out"
      and "uota < epoch + 1 \<Longrightarrow> b * ncrops \<le> length w"
  shows "crop_loss prec epoch uota T b ncrops out w crop_id q
           = Inr (spec_crop_loss prec (uota < epoch + 1) T b ncrops out w crop_id q)"
proof -
  let ?vs = "filter (\<lambda>v. v \<noteq> crop_id) [0..<ncrops]"
  let ?g = "\<lambda>v. batch_average prec (uota < epoch + 1)
                  (cross_entropy_terms prec q (prediction prec T b out v))
                  (slice (b * v) (b * (v + 1)) w)"
  have oc: "other_crops ncrops crop_id = Inr ?vs"
    using assms(1) by (simp add: other_crops_def)
  have le: "b * (v + 1) \<le> b * ncrops" if "v < ncrops" for v
    using that by (intro mult_le_mono2) simp
  have tm: "map (crop_term prec epoch uota T b out w q) ?vs = map (\<lambda>v. Inr (fneg (?g v))) ?vs"
  proof (rule map_cong [OF refl])
    fix v assume "v \<in> set ?vs"
    then have v: "v < ncrops" by simp
    have a: "b * (v + 1) \<le> length out" using le [OF v] assms(3) by linarith
    have b: "b * (v + 1) \<le> length w" if "uota < epoch + 1"
      using le [OF v] assms(4) [OF that] by linarith
    show "crop_term prec epoch uota T b out w q v = Inr (fneg (?g v))"
      by (rule crop_term_form [OF assms(2) a b])
  qed
  have cnt: "real (length ?vs) = real ncrops - 1"
    using assms(1) by (simp add: length_other_crops of_nat_diff)
  show ?thesis
    by (simp only: crop_loss_def oc sum.case tm sub_terms_form spec_crop_loss_def
          running_sum_def Let_def cnt)
qed

lemma step_loss_form:
  assumes "crops \<noteq> []"
      and "\<forall>(crop_id, q) \<in> set crops. crop_id < ncrops \<and> length q = b"
      and "b * ncrops \<le> length out"
      and "uota < epoch + 1 \<Longrightarrow> b * ncrops \<le> length w"
  shows "step_loss prec epoch uota T b ncrops out w crops
           = Inr (spec_loss prec (uota < epoch + 1) T b ncrops out w crops)"
proof -
  let ?h = "\<lambda>(crop_id, q). spec_crop_loss prec (uota < epoch + 1) T b ncrops out w crop_id q"
  have cl: "map (\<lambda>(crop_id, q). crop_loss prec epoch uota T b ncrops out w crop_id q) crops
              = map (\<lambda>x. Inr (?h x)) crops"
  proof (rule map_cong [OF refl])
    fix x assume x: "x \<in> set crops"
    obtain crop_id q where xq: "x = (crop_id, q)" by (cases x)
    have "crop_id < ncrops" "length q = b" using assms(2) x xq by auto
    from crop_loss_form [OF this assms(3,4)]
    show "(case x of (crop_id, q) \<Rightarrow> crop_loss prec epoch uota T b ncrops out w crop_id q)
            = Inr (?h x)"
      by (simp add: xq)
  qed
  show ?thesis
    using assms(1)
    by (simp only: step_loss_def cl add_losses_form sum.case spec_loss_def running_sum_def
          if_False)
qed

text \<open>
  C6, as the code has it. There is at least one assigned crop, the assignments have the
  \<open>b\<close> rows of a batch, the scores cover the \<open>ncrops\<close> crops of the step, and the rows of the
  scores and of the assignments have one length \<open>K\<close>. When \<open>epoch + 1\<close> equals
  \<open>epoch_uota_starts\<close>, the loss of the step is the unweighted form: the average over the
  batch of the cross-entropy terms, summed over the other crops and averaged over them and
  over the assigned crops. When \<open>epoch + 1\<close> equals \<open>epoch_uota_starts + 1\<close> and the weights
  cover the crops of the step, it is the weighted form, each cross-entropy term times the
  weight of its sample before the average over the batch. Nothing is said of the two
  values being different.
\<close>

theorem loss_forms_at_uota_start:
  assumes "crops \<noteq> []"
      and "\<forall>(crop_id, q) \<in> set crops. crop_id < ncrops \<and> length q = b"
      and "b * ncrops \<le> length out"
      and "\<forall>row \<in> set out. length row = K"
      and "\<forall>(crop_id, q) \<in> set crops. \<forall>row \<in> set q. length row = K"
  shows "(epoch + 1 = uota \<longrightarrow>
            step_loss prec epoch uota T b ncrops out w crops
              = Inr (spec_loss prec False T b ncrops out w crops))
       \<and> (epoch + 1 = uota + 1 \<and> b * ncrops \<le> length w \<longrightarrow>
            step_loss prec epoch uota T b ncrops out w crops
              = Inr (spec_loss prec True T b ncrops out w crops))"
proof (intro conjI impI)
  assume e: "epoch + 1 = uota"
  have "step_loss prec epoch uota T b ncrops out w crops
          = Inr (spec_loss prec (uota < epoch + 1) T b ncrops out w crops)"
    by (rule step_loss_form [OF assms(1-3)]) (use e in simp)
  then show "step_loss prec epoch uota T b ncrops out w crops
               = Inr (spec_loss prec False T b ncrops out w crops)"
    using e by simp
next
  assume e: "epoch + 1 = uota + 1 \<and> b * ncrops \<le> length w"
  have "step_loss prec epoch uota T b ncrops out w crops
          = Inr (spec_loss prec (uota < epoch + 1) T b ncrops out w crops)"
    by (rule step_loss_form [OF assms(1-3)]) (use e in simp)
  then show "step_loss prec epoch uota T b ncrops out w crops
               = Inr (spec_loss prec True T b ncrops out w crops)"
    using e by simp
qed

lemma ln_2_lower: "1 / 2 \<le> ln (2::real)"
proof -
  have "ln (1 - 1 / 2 :: real) \<le> - (1 / 2)"
    by (rule ln_one_minus_pos_upper_bound) simp_all
  then have "ln (1 / 2 :: real) \<le> - (1 / 2)" by simp
  then show ?thesis by (simp add: ln_div)
qed

lemma to_range_ln_2:
  assumes "1 / 4 \<le> \<bar>c\<bar>" and "\<bar>c\<bar> \<le> 4"
  shows "to_range prec (Fin (c * ln 2)) = Fin (c * ln 2)"
proof (rule to_range_small, rule disjI2)
  have l: "1 / 2 \<le> ln (2::real)" "ln (2::real) < 1" by (rule ln_2_lower, rule ln_2_less_1)
  have a: "\<bar>c * ln 2\<bar> = \<bar>c\<bar> * ln 2" using l by (simp add: abs_mult)
  have "1 / 4 * (1 / 2) \<le> \<bar>c\<bar> * ln 2" using assms(1) l(1) by (intro mult_mono) simp_all
  moreover have "\<bar>c\<bar> * ln 2 \<le> 4 * 1" using assms(2) l by (intro mult_mono) simp_all
  ultimately show "1 / 2 ^ 150 < \<bar>c * ln 2\<bar> \<and> \<bar>c * ln 2\<bar> < 2 ^ 127"
    unfolding a by simp
qed

lemma pred_half: "prediction Float32 (Fin (1/10)) 2
      [[Fin 0, Fin 0], [Fin 0, Fin 0], [Fin 0, Fin 0], [Fin 0, Fin 0]] (Suc 0)
      = [[Fin (1/2), Fin (1/2)], [Fin (1/2), Fin (1/2)]]"
  by (simp add: prediction_def softmax_def slice_def row_max_def fl_arith fsub_def Let_def)

lemma log_half: "fl_log Float32 (Fin (1/2)) = Fin (- 1 * ln 2)"
  unfolding fl_log_def using to_range_ln_2 [of "- 1" Float32] by (simp add: ln_div)

lemma ce_half: "cross_entropy_terms Float32 [[Fin (1/2), Fin (1/2)], [Fin (1/2), Fin (1/2)]]
      [[Fin (1/2), Fin (1/2)], [Fin (1/2), Fin (1/2)]] = [Fin (ln 2), Fin (ln 2)]"
  using to_range_ln_2 [of "- 1 / 2" Float32] to_range_ln_2 [of "- 1" Float32]
  by (simp add: cross_entropy_terms_def log_half fl_mul_def fsum_def)


lemma to_range_mid:
  "1 / 8 \<le> x \<Longrightarrow> x \<le> 8 \<Longrightarrow> to_range prec (Fin x) = Fin x"
  by (rule to_range_small) simp

lemma others_2_0:
  "filter (\<lambda>v. v \<noteq> 0) [0..<2] = [Suc 0]" "filter ((<) 0) [0..<2] = [Suc 0]"
  by (simp_all add: eval_nat_numeral)

lemma spec_loss_unweighted_example:
  "spec_loss Float32 False (Fin (1/10)) 2 2
       [[Fin 0, Fin 0], [Fin 0, Fin 0], [Fin 0, Fin 0], [Fin 0, Fin 0]] w
       [(0, [[Fin (1/2), Fin (1/2)], [Fin (1/2), Fin (1/2)]])]
     = Fin (ln 2)"
  using ln_2_lower ln_2_less_1
  by (simp add: spec_loss_def spec_crop_loss_def running_sum_def batch_average_def mean_def
        others_2_0 pred_half ce_half fl_arith to_range_mid)

lemma spec_loss_weighted_example:
  "spec_loss Float32 True (Fin (1/10)) 2 2
       [[Fin 0, Fin 0], [Fin 0, Fin 0], [Fin 0, Fin 0], [Fin 0, Fin 0]]
       [Fin 1, Fin 1, Fin (1/2), Fin 1]
       [(0, [[Fin (1/2), Fin (1/2)], [Fin (1/2), Fin (1/2)]])]
     = Fin (3/4 * ln 2)"
  using ln_2_lower ln_2_less_1
  by (simp add: spec_loss_def spec_crop_loss_def running_sum_def batch_average_def mean_def
        others_2_0 pred_half ce_half fl_arith to_range_mid slice_def)

lemma spec_loss_weighted_same:
  "spec_loss Float32 True (Fin (1/10)) 2 2
       [[Fin 0, Fin 0], [Fin 0, Fin 0], [Fin 0, Fin 0], [Fin 0, Fin 0]]
       [Fin 1, Fin 1, Fin (1/2), Fin (3/2)]
       [(0, [[Fin (1/2), Fin (1/2)], [Fin (1/2), Fin (1/2)]])]
     = Fin (ln 2)"
  using ln_2_lower ln_2_less_1
  by (simp add: spec_loss_def spec_crop_loss_def running_sum_def batch_average_def mean_def
        others_2_0 pred_half ce_half fl_arith to_range_mid slice_def)


text \<open>
  Two crops of two samples and two prototypes, all scores 0, the assignment of crop 0
  uniform, the weights of the samples of crop 1 1/2 and 1: the loss is \<open>ln 2\<close> when
  \<open>epoch + 1\<close> is \<open>epoch_uota_starts\<close> and \<open>3/4 * ln 2\<close> when it is \<open>epoch_uota_starts + 1\<close>.
\<close>

theorem loss_forms_example:
  "step_loss Float32 4 5 (Fin (1/10)) 2 2
       [[Fin 0, Fin 0], [Fin 0, Fin 0], [Fin 0, Fin 0], [Fin 0, Fin 0]]
       [Fin 1, Fin 1, Fin (1/2), Fin 1]
       [(0, [[Fin (1/2), Fin (1/2)], [Fin (1/2), Fin (1/2)]])]
     = Inr (Fin (ln 2))
   \<and> step_loss Float32 5 5 (Fin (1/10)) 2 2
       [[Fin 0, Fin 0], [Fin 0, Fin 0], [Fin 0, Fin 0], [Fin 0, Fin 0]]
       [Fin 1, Fin 1, Fin (1/2), Fin 1]
       [(0, [[Fin (1/2), Fin (1/2)], [Fin (1/2), Fin (1/2)]])]
     = Inr (Fin (3/4 * ln 2))
   \<and> step_loss Float32 4 5 (Fin (1/10)) 2 2
       [[Fin 0, Fin 0], [Fin 0, Fin 0], [Fin 0, Fin 0], [Fin 0, Fin 0]]
       [Fin 1, Fin 1, Fin (1/2), Fin 1]
       [(0, [[Fin (1/2), Fin (1/2)], [Fin (1/2), Fin (1/2)]])]
     \<noteq> step_loss Float32 5 5 (Fin (1/10)) 2 2
       [[Fin 0, Fin 0], [Fin 0, Fin 0], [Fin 0, Fin 0], [Fin 0, Fin 0]]
       [Fin 1, Fin 1, Fin (1/2), Fin 1]
       [(0, [[Fin (1/2), Fin (1/2)], [Fin (1/2), Fin (1/2)]])]"
proof -
  let ?out = "[[Fin 0, Fin 0], [Fin 0, Fin 0], [Fin 0, Fin 0], [Fin 0, Fin 0]]"
  let ?w = "[Fin 1, Fin 1, Fin (1/2), Fin 1]"
  let ?crops = "[(0::nat, [[Fin (1/2), Fin (1/2)], [Fin (1/2), Fin (1/2)]])]"
  have h1: "?crops \<noteq> []" by simp
  have h2: "\<forall>(crop_id, q) \<in> set ?crops. crop_id < 2 \<and> length q = 2" by simp
  have h3: "2 * 2 \<le> length ?out" by simp
  have h5: "\<forall>row \<in> set ?out. length row = 2" by simp
  have h6: "\<forall>(crop_id, q) \<in> set ?crops. \<forall>row \<in> set q. length row = 2" by simp
  have l: "ln (2::real) \<noteq> 3 / 4 * ln 2" using ln_2_lower by simp
  from loss_forms_at_uota_start [OF h1 h2 h3 h5 h6, where epoch = 4 and uota = 5
      and prec = Float32 and T = "Fin (1/10)" and w = ?w]
  have a: "step_loss Float32 4 5 (Fin (1/10)) 2 2 ?out ?w ?crops = Inr (Fin (ln 2))"
    by (simp add: spec_loss_unweighted_example)
  from loss_forms_at_uota_start [OF h1 h2 h3 h5 h6, where epoch = 5 and uota = 5
      and prec = Float32 and T = "Fin (1/10)" and w = ?w]
  have b: "step_loss Float32 5 5 (Fin (1/10)) 2 2 ?out ?w ?crops = Inr (Fin (3/4 * ln 2))"
    by (simp add: spec_loss_weighted_example)
  show ?thesis unfolding a b using l by simp
qed

text \<open>
  C6 as stated fails in its last part: with the weights 1/2 and 3/2 on the two samples of
  the other crop, the loss is \<open>ln 2\<close> both when \<open>epoch + 1\<close> is \<open>epoch_uota_starts\<close> and
  when it is \<open>epoch_uota_starts + 1\<close>.
\<close>

theorem nonuniform_weights_same_loss:
  "step_loss Float32 4 5 (Fin (1/10)) 2 2
       [[Fin 0, Fin 0], [Fin 0, Fin 0], [Fin 0, Fin 0], [Fin 0, Fin 0]]
       [Fin 1, Fin 1, Fin (1/2), Fin (3/2)]
       [(0, [[Fin (1/2), Fin (1/2)], [Fin (1/2), Fin (1/2)]])]
     = Inr (Fin (ln 2))
   \<and> step_loss Float32 5 5 (Fin (1/10)) 2 2
       [[Fin 0, Fin 0], [Fin 0, Fin 0], [Fin 0, Fin 0], [Fin 0, Fin 0]]
       [Fin 1, Fin 1, Fin (1/2), Fin (3/2)]
       [(0, [[Fin (1/2), Fin (1/2)], [Fin (1/2), Fin (1/2)]])]
     = Inr (Fin (ln 2))"
proof -
  let ?out = "[[Fin 0, Fin 0], [Fin 0, Fin 0], [Fin 0, Fin 0], [Fin 0, Fin 0]]"
  let ?w = "[Fin 1, Fin 1, Fin (1/2), Fin (3/2)]"
  let ?crops = "[(0::nat, [[Fin (1/2), Fin (1/2)], [Fin (1/2), Fin (1/2)]])]"
  have h1: "?crops \<noteq> []" by simp
  have h2: "\<forall>(crop_id, q) \<in> set ?crops. crop_id < 2 \<and> length q = 2" by simp
  have h3: "2 * 2 \<le> length ?out" by simp
  have h4: "2 * 2 \<le> length ?w" by simp
  from step_loss_form [OF h1 h2 h3 h4, where epoch = 4 and uota = 5 and prec = Float32
      and T = "Fin (1/10)"]
  have a: "step_loss Float32 4 5 (Fin (1/10)) 2 2 ?out ?w ?crops = Inr (Fin (ln 2))"
    by (simp add: spec_loss_unweighted_example)
  from step_loss_form [OF h1 h2 h3 h4, where epoch = 5 and uota = 5 and prec = Float32
      and T = "Fin (1/10)"]
  have b: "step_loss Float32 5 5 (Fin (1/10)) 2 2 ?out ?w ?crops = Inr (Fin (ln 2))"
    by (simp add: spec_loss_weighted_same)
  show ?thesis using a b by simp
qed

section \<open>The shift of \<open>improve_numerical_stability\<close>\<close>

lemma concat_lift: "concat (map (map Fin) R) = map Fin (concat R)"
  by (simp add: map_concat)

lemma no_inf_Fin: "\<not> list_ex isinf (map Fin xs)"
  by (induction xs) simp_all


lemma shoot_infs_mat_Fin: "shoot_infs_mat (map (map Fin) R) = map (map Fin) R"
  unfolding shoot_infs_mat_def concat_lift using no_inf_Fin by simp


lemma fsum_concat_lift: "exact_sum (concat (map (map Fin) R)) = Fin (sum_list (concat R))"
  by (simp only: concat_lift fsum_map_Fin)

lemma sinkhorn_normalize_lift:
  "sinkhorn_normalize Exact (map (map (map Fin)) Rs)
     = map (map (map (\<lambda>x. fdiv (Fin x) (Fin (sum_list (map (\<lambda>R. sum_list (concat R)) Rs)))))) Rs"
proof -
  have a: "map shoot_infs_mat (map (map (map Fin)) Rs) = map (map (map Fin)) Rs"
    by (simp add: shoot_infs_mat_Fin)
  have b: "map (\<lambda>Q. exact_sum (concat Q)) (map (map (map Fin)) Rs)
             = map Fin (map (\<lambda>R. sum_list (concat R)) Rs)"
    by (simp add: fsum_concat_lift comp_def)
  show ?thesis
    unfolding sinkhorn_normalize_def all_reduce_sum_def Let_def exact_ops a b fsum_map_Fin
    by (simp add: comp_def)
qed

lemma fdiv_scale:
  "0 < k \<Longrightarrow> 0 < e \<Longrightarrow> fdiv (Fin (k * e)) (Fin (k * S)) = fdiv (Fin e) (Fin S)"
  by (auto simp: zero_less_mult_iff)

lemma sinkhorn_normalize_scale:
  assumes "0 < k" and "\<forall>R\<in>set Rs. \<forall>row\<in>set R. \<forall>e\<in>set row. 0 < e"
  shows "sinkhorn_normalize Exact (map (map (map Fin)) (map (map (map ((*) k))) Rs))
           = sinkhorn_normalize Exact (map (map (map Fin)) Rs)"
proof -
  let ?S = "sum_list (map (\<lambda>R. sum_list (concat R)) Rs)"
  have s1: "sum_list (concat (map (map ((*) k)) R)) = k * sum_list (concat R)" for R
    by (simp add: map_concat [symmetric] sum_list_const_mult)
  have s: "sum_list (map (\<lambda>R. sum_list (concat R)) (map (map (map ((*) k))) Rs)) = k * ?S"
    by (simp add: comp_def s1 sum_list_const_mult)
  have "sinkhorn_normalize Exact (map (map (map Fin)) (map (map (map ((*) k))) Rs))
          = map (map (map (\<lambda>x. fdiv (Fin (k * x)) (Fin (k * ?S))))) Rs"
    unfolding sinkhorn_normalize_lift s by (simp add: comp_def)
  also have "\<dots> = map (map (map (\<lambda>x. fdiv (Fin x) (Fin ?S)))) Rs"
  proof (rule map_cong [OF refl], rule map_cong [OF refl], rule map_cong [OF refl])
    fix R row e assume "R \<in> set Rs" "row \<in> set R" "e \<in> set row"
    then have "0 < e" using assms(2) by blast
    then show "fdiv (Fin (k * e)) (Fin (k * ?S)) = fdiv (Fin e) (Fin ?S)"
      by (rule fdiv_scale [OF assms(1)])
  qed
  also have "\<dots> = sinkhorn_normalize Exact (map (map (map Fin)) Rs)"
    by (simp only: sinkhorn_normalize_lift)
  finally show ?thesis .
qed

lemma scores_to_Q_unstable:
  assumes "eps \<noteq> 0"
  shows "scores_to_Q Exact (Fin eps) False (map (map (map Fin)) outs)
           = Inr (map (map (map Fin)) (map (\<lambda>out. map (map (\<lambda>x. exp (x / eps))) (transpose out)) outs))"
  using assms by (simp add: scores_to_Q_def comp_def transpose_map_map)

lemma collect_Fin:
  "\<forall>x\<in>set xs. \<exists>m. f x = Inr (Fin m) \<Longrightarrow>
   \<exists>ms. collect (map f xs) = Inr (map Fin ms) \<and> length ms = length xs"
proof (induction xs)
  case Nil
  then show ?case by simp
next
  case (Cons x xs)
  then obtain ms where ms: "collect (map f xs) = Inr (map Fin ms)" "length ms = length xs"
    by auto
  from Cons.prems obtain m where m: "f x = Inr (Fin m)" by auto
  have "collect (map f (x # xs)) = Inr (map Fin (m # ms))" by (simp add: m ms)
  moreover have "length (m # ms) = length (x # xs)" by (simp add: ms)
  ultimately show ?case by blast
qed

lemma all_reduce_max_Fin: "ms \<noteq> [] \<Longrightarrow> \<exists>M. all_reduce_max (map Fin ms) = Fin M"
proof -
  assume "ms \<noteq> []"
  then obtain a as where "ms = a # as" by (cases ms) auto
  then show ?thesis using foldl_fmax_Fin [of a as] by (auto simp: all_reduce_max_def)
qed

lemma scores_to_Q_stable:
  assumes "eps \<noteq> 0" and "\<forall>out\<in>set outs. concat out \<noteq> []" and "outs \<noteq> []"
  shows "\<exists>M. scores_to_Q Exact (Fin eps) True (map (map (map Fin)) outs)
           = Inr (map (map (map Fin))
                   (map (\<lambda>out. map (map (\<lambda>x. exp (x / eps - M))) (transpose out)) outs))"
proof -
  let ?qs = "map (map (map (\<lambda>x. fdiv x (Fin eps)))) (map (map (map Fin)) outs)"
  have qs: "?qs = map (map (map Fin)) (map (map (map (\<lambda>x. x / eps))) outs)"
    using assms(1) by (simp add: comp_def)
  have "\<forall>R\<in>set (map (map (map (\<lambda>x. x / eps))) outs).
          \<exists>m. torch_max (concat (map (map Fin) R)) = Inr (Fin m)"
  proof
    fix R assume "R \<in> set (map (map (map (\<lambda>x. x / eps))) outs)"
    then obtain out where o: "out \<in> set outs" "R = map (map (\<lambda>x. x / eps)) out" by auto
    have ne: "concat (map (map Fin) R) \<noteq> []" using assms(2) o by auto
    have fin: "list_all isfinite (concat (map (map Fin) R))"
      by (simp add: concat_lift list_all_iff)
    from torch_max_finite [OF fin ne]
    show "\<exists>m. torch_max (concat (map (map Fin) R)) = Inr (Fin m)" by blast
  qed
  from collect_Fin [OF this] obtain ms where
    ms: "collect (map (\<lambda>R. torch_max (concat (map (map Fin) R)))
                   (map (map (map (\<lambda>x. x / eps))) outs)) = Inr (map Fin ms)"
        "length ms = length (map (map (map (\<lambda>x. x / eps))) outs)"
    by blast
  have "ms \<noteq> []" using ms(2) assms(3) by auto
  from all_reduce_max_Fin [OF this] obtain M where M: "all_reduce_max (map Fin ms) = Fin M"
    by blast
  have c: "collect (map (\<lambda>q. torch_max (concat q)) ?qs) = Inr (map Fin ms)"
    unfolding qs using ms(1) by (simp add: comp_def)
  have "scores_to_Q Exact (Fin eps) True (map (map (map Fin)) outs)
          = Inr (map (\<lambda>q. transpose (map (map (\<lambda>x. fexp (fsub x (Fin M)))) q)) ?qs)"
    unfolding scores_to_Q_def Let_def exact_ops c using M by simp
  also have "map (\<lambda>q. transpose (map (map (\<lambda>x. fexp (fsub x (Fin M)))) q)) ?qs
          = map (map (map Fin)) (map (\<lambda>out. map (map (\<lambda>x. exp (x / eps - M))) (transpose out)) outs)"
    unfolding qs by (simp add: comp_def transpose_map_map fsub_def)
  finally show ?thesis by blast
qed

text \<open>
  C7, in exact arithmetic (the precision \<open>Exact\<close>). The scores of every worker are finite
  and each worker has at least one score (so that \<open>torch.max\<close> does not raise), and
  \<open>epsilon\<close> is not 0. Then the assignments of all
  workers with \<open>improve_numerical_stability\<close> are those without it, for every number of
  workers, \<open>world_size\<close>, number of rounds and batch size, and the computation returns:
  the subtraction of the common maximum multiplies every entry of every worker's \<open>Q\<close> by the
  same positive factor, which the division by the sum over all workers cancels.
\<close>

theorem stability_mode_same_assignments:
  assumes "eps \<noteq> 0" and "\<forall>out\<in>set outs. concat out \<noteq> []"
  shows "get_assignments Exact ws (Fin eps) True iters b (map (map (map Fin)) outs)
           = get_assignments Exact ws (Fin eps) False iters b (map (map (map Fin)) outs)
       \<and> (\<exists>A. get_assignments Exact ws (Fin eps) True iters b (map (map (map Fin)) outs) = Inr A)"
proof (cases "outs = []")
  case True
  then show ?thesis by (simp add: get_assignments_def scores_to_Q_def)
next
  case False
  let ?E = "map (\<lambda>out. map (map (\<lambda>x. exp (x / eps))) (transpose out)) outs"
  from scores_to_Q_stable [OF assms False] obtain M where
    st: "scores_to_Q Exact (Fin eps) True (map (map (map Fin)) outs)
           = Inr (map (map (map Fin))
                   (map (\<lambda>out. map (map (\<lambda>x. exp (x / eps - M))) (transpose out)) outs))"
    by blast
  have sc: "map (\<lambda>out. map (map (\<lambda>x. exp (x / eps - M))) (transpose out)) outs
              = map (map (map ((*) (exp (- M))))) ?E"
    by (simp add: comp_def exp_diff exp_minus divide_inverse mult.commute)
  have pos: "\<forall>R\<in>set ?E. \<forall>row\<in>set R. \<forall>e\<in>set row. 0 < e" by auto
  have nz: "sinkhorn_normalize Exact (map (map (map Fin)) (map (map (map ((*) (exp (- M))))) ?E))
              = sinkhorn_normalize Exact (map (map (map Fin)) ?E)"
    by (rule sinkhorn_normalize_scale [OF _ pos]) simp
  have "distributed_sinkhorn Exact ws (map (map (map Fin)) (map (map (map ((*) (exp (- M))))) ?E)) iters
          = distributed_sinkhorn Exact ws (map (map (map Fin)) ?E) iters"
    unfolding distributed_sinkhorn_def sinkhorn_before_final_def nz ..
  then show ?thesis
    unfolding get_assignments_def st sc scores_to_Q_unstable [OF assms(1)] by simp
qed

text \<open>One worker, two samples, two prototypes, \<open>epsilon = 0.05\<close>.\<close>

theorem stability_mode_example:
  "get_assignments Exact 1 (Fin (1/20)) True 3 2 (map (map (map Fin)) [[[1, -1], [1/2, 0]]])
     = get_assignments Exact 1 (Fin (1/20)) False 3 2 (map (map (map Fin)) [[[1, -1], [1/2, 0]]])
   \<and> (\<exists>A. get_assignments Exact 1 (Fin (1/20)) True 3 2 (map (map (map Fin)) [[[1, -1], [1/2, 0]]])
           = Inr A)"
proof -
  have h1: "(1/20::real) \<noteq> 0" by simp
  have h2: "\<forall>out\<in>set [[[1, -1], [1/2, 0::real]]]. concat out \<noteq> []" by simp
  show ?thesis by (rule stability_mode_same_assignments [OF h1 h2])
qed

section \<open>The mass of \<open>Q\<close> after the loop\<close>

























lemma in_range_Exact: "in_range Exact xs"
  by (simp add: in_range_def list_all_iff)

lemma in_range_append [simp]: "in_range prec (xs @ ys) = (in_range prec xs \<and> in_range prec ys)"
  by (simp add: in_range_def)

lemma in_range_Nil [simp]: "in_range prec []"
  by (simp add: in_range_def)

lemma in_range_Cons [simp]:
  "in_range prec (x # xs) = (to_range prec x = x \<and> in_range prec xs)"
  by (simp add: in_range_def)


















lemma to_range_idem: "to_range prec (to_range prec x) = to_range prec x"
  by (cases x) (auto simp: to_range.simps(1) overflows_def underflows_def)










lemma exp_minus_200_underflows: "to_range Float32 (Fin (exp (- 200))) = Fin 0"
proof -
  have "(2::real) \<le> exp 1" using exp_ge_add_one_self [of 1] by simp
  then have "(2::real) ^ 200 \<le> exp 1 ^ 200" by (rule power_mono) simp
  also have "\<dots> = exp (real (200::nat) * 1)" by (rule exp_of_nat_mult [symmetric])
  finally have a: "(2::real) ^ 200 \<le> exp 200" by simp
  have "(2::real) ^ 150 \<le> 2 ^ 200" by simp
  with a have b: "(2::real) ^ 150 \<le> exp 200" by linarith
  have "exp (- 200 :: real) = 1 / exp 200" by (simp add: exp_minus inverse_eq_divide)
  also have "\<dots> \<le> 1 / 2 ^ 150" using b by (intro divide_left_mono) simp_all
  finally have c: "exp (- 200 :: real) \<le> 1 / 2 ^ 150" .
  have d: "\<not> (2 - 1 / 2 ^ 24) * 2 ^ 127 \<le> exp (- 200 :: real)" using c by simp
  show ?thesis
    using c d by (simp add: to_range.simps(1) overflows_def underflows_def)
qed


lemma underflow_not_in_range:
  "\<not> in_range Float32 (one_worker_values (Fin (1/20)) False 1
        [[Fin 0, Fin 0], [Fin (- 10), Fin (- 10)]])"
proof -
  have "to_range Float32 (Fin (exp (- 200))) \<noteq> Fin (exp (- 200))"
    by (simp add: exp_minus_200_underflows)
  then show ?thesis
    by (simp add: one_worker_values_def Let_def)
qed


end
